theory Spec2Isabelle
  imports Complex_Main
begin

section \<open>The scrape-job monitor of \<^verbatim>\<open>src/dashboard/app.py\<close>\<close>

text \<open>
  The scraper tab of the dashboard starts \<^verbatim>\<open>python -u main.py ...\<close> as a child process,
  reads its combined output line by line, updates four counters from the lines and shows them,
  and reports how the child ended (\<^verbatim>\<open>app.py\<close>, lines 364 to 493). This theory embeds that
  code: the pipe and \<^verbatim>\<open>readline\<close>, the decoding, the seven pattern blocks of the loop body,
  the status update, and the code after the loop together with its exception handler.

  Conventions of the embedding.
  \<^item> An octet is a \<^typ>\<open>char\<close>. A Python \<^verbatim>\<open>str\<close> is the \<^typ>\<open>string\<close> of its UTF-8 code
    units. Every literal of the source that the loop looks for is ASCII, so \<^verbatim>\<open>in\<close> is the
    same test on code units as on code points.
  \<^item> The counters are Python \<^verbatim>\<open>int\<close>s, unbounded, of type \<^typ>\<open>int\<close>.
  \<^item> A \<^verbatim>\<open>float\<close> is a \<^typ>\<open>real\<close>: rounding is left out, the finite range is kept where a
    conversion from \<^verbatim>\<open>int\<close> raises \<^verbatim>\<open>OverflowError\<close>.
  \<^item> The calls on Streamlit widgets are recorded, in order, in a log; the widgets themselves
    are outside the embedding and their calls do not raise.
  \<^item> Of the classes \<^verbatim>\<open>\d\<close> and \<^verbatim>\<open>\s\<close> the ASCII members are modelled (ten digits, ten
    white-space characters); the decimal digits and white space that Unicode has beyond ASCII
    are outside the embedding. So is the interpreter's limit on the number of digits in
    \<^verbatim>\<open>int\<close>/\<^verbatim>\<open>str\<close> conversions, a setting that can be switched off: conversions are
    taken without it.
\<close>

subsection \<open>Text\<close>

type_synonym byte = char

definition newline :: byte where
  "newline = CHR 0x0A"

text \<open>\<^verbatim>\<open>s.startswith(p)\<close> and \<^verbatim>\<open>sub in s\<close>.\<close>

fun starts_with :: "string \<Rightarrow> string \<Rightarrow> bool" where
  "starts_with [] s = True"
| "starts_with (p # ps) [] = False"
| "starts_with (p # ps) (c # cs) = (p = c \<and> starts_with ps cs)"

fun contains :: "string \<Rightarrow> string \<Rightarrow> bool" where
  "contains sub [] = (sub = [])"
| "contains sub (c # cs) = (starts_with sub (c # cs) \<or> contains sub cs)"

text \<open>The rest of \<open>s\<close> after the literal \<open>p\<close>, when \<open>s\<close> starts with it.\<close>

fun after_literal :: "string \<Rightarrow> string \<Rightarrow> string option" where
  "after_literal [] s = Some s"
| "after_literal (p # ps) [] = None"
| "after_literal (p # ps) (c # cs) = (if p = c then after_literal ps cs else None)"

definition is_digit :: "char \<Rightarrow> bool" where
  "is_digit c = (c \<in> set ''0123456789'')"

definition is_space :: "char \<Rightarrow> bool" where
  "is_space c = (c \<in> set [CHR 0x09, CHR 0x0A, CHR 0x0B, CHR 0x0C, CHR 0x0D,
                            CHR 0x1C, CHR 0x1D, CHR 0x1E, CHR 0x1F, CHR 0x20])"

text \<open>\<^verbatim>\<open>int(g)\<close> for a group \<open>g\<close> matched by \<^verbatim>\<open>\d+\<close>.\<close>

definition digit_value :: "char \<Rightarrow> int" where
  "digit_value c = int (of_char c) - 48"

definition py_int :: "string \<Rightarrow> int" where
  "py_int g = foldl (\<lambda>acc c. 10 * acc + digit_value c) 0 g"

subsection \<open>The five regular expressions\<close>

text \<open>
  \<^verbatim>\<open>re.search\<close> returns the leftmost match: the pattern is tried at the start of the text,
  then one character further, and so on. \<open>re_search m s\<close> does that for a function \<open>m\<close>
  that matches the pattern at the start of its argument and returns the groups.

  In each of the five patterns a greedy \<^verbatim>\<open>\d+\<close> or \<^verbatim>\<open>\s*\<close> is followed by something that
  no character of its own class can start (white space, \<^verbatim>\<open>/\<close>, a digit, the end of the
  pattern), so giving back characters never turns a failed match into a successful one: the
  longest run is the only candidate, and the matchers below take it with
  \<^const>\<open>takeWhile\<close> and \<^const>\<open>dropWhile\<close>.
\<close>

fun re_search :: "(string \<Rightarrow> 'g option) \<Rightarrow> string \<Rightarrow> 'g option" where
  "re_search m [] = m []"
| "re_search m (c # cs) = (case m (c # cs) of Some g \<Rightarrow> Some g | None \<Rightarrow> re_search m cs)"

text \<open>\<^verbatim>\<open>(\d+)\s*/\s*(\d+)\<close>\<close>

definition match_ratio :: "string \<Rightarrow> (string \<times> string) option" where
  "match_ratio s =
     (let g1 = takeWhile is_digit s;
          r = dropWhile is_space (dropWhile is_digit s)
      in if g1 = [] then None
         else (case r of
                 [] \<Rightarrow> None
               | c # r' \<Rightarrow>
                   if c \<noteq> CHR ''/'' then None
                   else (let g2 = takeWhile is_digit (dropWhile is_space r')
                         in if g2 = [] then None else Some (g1, g2))))"

text \<open>\<^verbatim>\<open>Saved (\d+)\<close>\<close>

definition match_saved :: "string \<Rightarrow> string option" where
  "match_saved s =
     (case after_literal ''Saved '' s of
        None \<Rightarrow> None
      | Some r \<Rightarrow> (let g = takeWhile is_digit r in if g = [] then None else Some g))"

text \<open>\<^verbatim>\<open>Comments:\s*(\d+)\<close>, \<^verbatim>\<open>Images:\s*(\d+)\<close> and \<^verbatim>\<open>Videos:\s*(\d+)\<close>, by their label.\<close>

definition match_label :: "string \<Rightarrow> string \<Rightarrow> string option" where
  "match_label label s =
     (case after_literal label s of
        None \<Rightarrow> None
      | Some r \<Rightarrow>
          (let g = takeWhile is_digit (dropWhile is_space r)
           in if g = [] then None else Some g))"

text \<open>\<^verbatim>\<open>Found (\d+) posts\<close>\<close>

definition match_found :: "string \<Rightarrow> string option" where
  "match_found s =
     (case after_literal ''Found '' s of
        None \<Rightarrow> None
      | Some r \<Rightarrow>
          (let g = takeWhile is_digit r
           in if g = [] then None
              else if starts_with '' posts'' (dropWhile is_digit r) then Some g else None))"

subsection \<open>The pipe and \<^verbatim>\<open>readline\<close>\<close>

text \<open>
  The child's output arrives in the pipe as a sequence of chunks, one per write. The pipe is
  opened with \<^verbatim>\<open>bufsize=0\<close>, so \<^verbatim>\<open>process.stdout\<close> is a raw stream and its \<^verbatim>\<open>readline\<close>
  asks for one octet at a time until it has a newline or the stream is at its end. After the
  last chunk the stream either reports its end or the read fails.
\<close>

datatype py_error = ZeroDivisionError | OverflowError | SpawnError | StreamError

datatype stream_end = Eof | IoFailure

text \<open>\<^verbatim>\<open>read(1)\<close>: the next octet, \<open>None\<close> at the end of the stream.\<close>

fun read1 :: "stream_end \<Rightarrow> byte list list \<Rightarrow> (py_error + byte option) \<times> byte list list" where
  "read1 e [] = (case e of Eof \<Rightarrow> (Inr None, []) | IoFailure \<Rightarrow> (Inl StreamError, []))"
| "read1 e ([] # cs) = read1 e cs"
| "read1 e ((b # bs) # cs) = (Inr (Some b), bs # cs)"

text \<open>\<^verbatim>\<open>readline()\<close>, with the octets read so far in \<open>buf\<close>.\<close>

function readline :: "stream_end \<Rightarrow> byte list \<Rightarrow> byte list list
                      \<Rightarrow> (py_error + byte list) \<times> byte list list" where
  "readline e buf cs =
     (case read1 e cs of
        (Inl err, cs') \<Rightarrow> (Inl err, cs')
      | (Inr None, cs') \<Rightarrow> (Inr buf, cs')
      | (Inr (Some b), cs') \<Rightarrow>
          if b = newline then (Inr (buf @ [b]), cs') else readline e (buf @ [b]) cs')"
  by pat_completeness auto


lemma read1_some: "read1 e cs = (Inr (Some b), cs') \<Longrightarrow> concat cs = b # concat cs'"
  by (induction e cs rule: read1.induct) (auto split: stream_end.splits)

termination readline
  by (relation "measure (\<lambda>(e, buf, cs). length (concat cs))") (auto dest: read1_some [OF sym])

declare readline.simps [simp del]

text \<open>
  \<^verbatim>\<open>iter(process.stdout.readline, b'')\<close>: the values the iterator yields, and how the
  iteration ends: \<open>None\<close> when \<^verbatim>\<open>readline\<close> returned the sentinel \<^verbatim>\<open>b''\<close>, \<open>Some err\<close>
  when it raised.
\<close>

function iter_readline :: "stream_end \<Rightarrow> byte list list \<Rightarrow> byte list list \<times> py_error option" where
  "iter_readline e cs =
     (case readline e [] cs of
        (Inl err, cs') \<Rightarrow> ([], Some err)
      | (Inr raw_line, cs') \<Rightarrow>
          if raw_line = [] then ([], None)
          else (let (rest, ending) = iter_readline e cs' in (raw_line # rest, ending)))"
  by pat_completeness auto


lemma read1_none: "read1 e cs = (Inr None, cs') \<Longrightarrow> concat cs = [] \<and> cs' = []"
  by (induction e cs rule: read1.induct) (auto split: stream_end.splits)

lemma readline_concat:
  "readline e buf cs = (Inr l, cs') \<Longrightarrow> buf @ concat cs = l @ concat cs'"
proof (induction e buf cs rule: readline.induct)
  case (1 e buf cs)
  obtain r cs1 where r: "read1 e cs = (r, cs1)" by (cases "read1 e cs")
  show ?case
  proof (cases r)
    case (Inl err)
    with r "1.prems" show ?thesis by (simp add: readline.simps [of e buf cs])
  next
    case (Inr ob)
    show ?thesis
    proof (cases ob)
      case None
      with r Inr "1.prems" read1_none [of e cs cs1] show ?thesis
        by (simp add: readline.simps [of e buf cs])
    next
      case (Some b)
      with r Inr have c: "concat cs = b # concat cs1" by (simp add: read1_some)
      show ?thesis
      proof (cases "b = newline")
        case True
        with r Inr Some c "1.prems" show ?thesis by (simp add: readline.simps [of e buf cs])
      next
        case False
        with r Inr Some "1.prems" have "readline e (buf @ [b]) cs1 = (Inr l, cs')"
          by (simp add: readline.simps [of e buf cs])
        with "1.IH" [OF r [symmetric] Inr Some False] c show ?thesis by simp
      qed
    qed
  qed
qed

termination iter_readline
  by (relation "measure (\<lambda>(e, cs). length (concat cs))") (auto dest!: readline_concat [OF sym])

declare iter_readline.simps [simp del]

subsection \<open>Decoding\<close>

text \<open>
  \<^verbatim>\<open>raw_line.decode('utf-8', errors='replace')\<close>. A well-formed sequence is kept; every
  maximal ill-formed run (a stray continuation octet, a lead octet that cannot start a
  sequence, or a sequence broken off before its last octet) becomes one U+FFFD, whose UTF-8
  form is \<^verbatim>\<open>EF BF BD\<close>. \<open>continuation_ranges\<close> gives, for a lead octet, the ranges the
  following octets must lie in.
\<close>

definition replacement :: string where
  "replacement = [CHR 0xEF, CHR 0xBF, CHR 0xBD]"

definition continuation_ranges :: "nat \<Rightarrow> (nat \<times> nat) list option" where
  "continuation_ranges b =
     (if 0xC2 \<le> b \<and> b \<le> 0xDF then Some [(0x80, 0xBF)]
      else if b = 0xE0 then Some [(0xA0, 0xBF), (0x80, 0xBF)]
      else if (0xE1 \<le> b \<and> b \<le> 0xEC) \<or> b = 0xEE \<or> b = 0xEF then Some [(0x80, 0xBF), (0x80, 0xBF)]
      else if b = 0xED then Some [(0x80, 0x9F), (0x80, 0xBF)]
      else if b = 0xF0 then Some [(0x90, 0xBF), (0x80, 0xBF), (0x80, 0xBF)]
      else if 0xF1 \<le> b \<and> b \<le> 0xF3 then Some [(0x80, 0xBF), (0x80, 0xBF), (0x80, 0xBF)]
      else if b = 0xF4 then Some [(0x80, 0x8F), (0x80, 0xBF), (0x80, 0xBF)]
      else None)"

text \<open>Whether the octets ahead fill the ranges, and what is left after those that do.\<close>

fun take_continuations :: "(nat \<times> nat) list \<Rightarrow> byte list \<Rightarrow> bool \<times> byte list" where
  "take_continuations [] bs = (True, bs)"
| "take_continuations (r # rs) [] = (False, [])"
| "take_continuations (r # rs) (b # bs) =
     (if fst r \<le> of_char b \<and> of_char b \<le> snd r then take_continuations rs bs
      else (False, b # bs))"

lemma take_continuations_length:
  "take_continuations rs bs = (ok, rest) \<Longrightarrow> length rest \<le> length bs"
  by (induction rs bs rule: take_continuations.induct) (auto split: if_splits)

function decode :: "byte list \<Rightarrow> string" where
  "decode [] = []"
| "decode (b # bs) =
     (if (of_char b :: nat) < 0x80 then b # decode bs
      else (case continuation_ranges (of_char b) of
              None \<Rightarrow> replacement @ decode bs
            | Some rs \<Rightarrow>
                (case take_continuations rs bs of
                   (ok, rest) \<Rightarrow>
                     if ok then (b # take (length rs) bs) @ decode rest
                     else replacement @ decode rest)))"
  by pat_completeness auto
termination
  by (relation "measure length") (auto dest: take_continuations_length [OF sym] simp: less_Suc_eq_le)




subsection \<open>The state of the loop and the log of widget calls\<close>

text \<open>
  What a metric widget is given: \<^verbatim>\<open>str(n)\<close>, \<^verbatim>\<open>f"{n}/{total}"\<close> or \<^verbatim>\<open>f"~{n}"\<close>.
\<close>

datatype metric_text = Count int | OfTotal int int | Approx int

datatype ui_call =
    PostsMetric metric_text
  | CommentsMetric metric_text
  | ImagesMetric metric_text
  | VideosMetric metric_text
  | ProgressBar real
  | StatusInfoBatch int
  | StatusInfoRunning real real
  | OutputCode string
  | StatusSuccess real
  | Balloons
  | StatusError int
  | StCode string
  | StError py_error
  | StTraceback

record state =
  output_lines :: "string list"
  posts_count :: int
  comments_count :: int
  images_count :: int
  videos_count :: int
  ui :: "ui_call list"

definition emit :: "ui_call \<Rightarrow> state \<Rightarrow> state" where
  "emit c s = s\<lparr>ui := ui s @ [c]\<rparr>"

text \<open>The slice \<^verbatim>\<open>xs[-n:]\<close> for a positive \<open>n\<close>: the last \<open>n\<close> elements, all of them when there are fewer.\<close>

definition last_n :: "nat \<Rightarrow> 'a list \<Rightarrow> 'a list" where
  "last_n n xs = drop (length xs - n) xs"

subsection \<open>Conversions to \<^verbatim>\<open>float\<close>\<close>

text \<open>
  An \<^verbatim>\<open>int\<close> converts to the nearest \<^verbatim>\<open>float\<close>; from \<open>2^1024 - 2^970\<close> on, the nearest
  one would be \<open>2^1024\<close>, which does not exist, and the conversion raises. The true division
  of two \<^verbatim>\<open>int\<close>s rounds the exact quotient in the same way.
\<close>

definition float_limit :: int where
  "float_limit = 2 ^ 1024 - 2 ^ 970"

definition int_to_float :: "int \<Rightarrow> py_error + real" where
  "int_to_float a = (if float_limit \<le> \<bar>a\<bar> then Inl OverflowError else Inr (real_of_int a))"

definition int_truediv :: "int \<Rightarrow> int \<Rightarrow> py_error + real" where
  "int_truediv a b =
     (if b = 0 then Inl ZeroDivisionError
      else if float_limit * \<bar>b\<bar> \<le> \<bar>a\<bar> then Inl OverflowError
      else Inr (real_of_int a / real_of_int b))"

subsection \<open>The pattern blocks of the loop body\<close>

text \<open>
  Each block is an \<^verbatim>\<open>if\<close> of its own (none is an \<^verbatim>\<open>elif\<close>), so a line runs through all
  seven in the order of the source. The body of a \<^verbatim>\<open>try\<close> returns the exception it raised,
  if any, with the state it had reached; \<^verbatim>\<open>except: pass\<close> keeps that state and drops the
  exception.
\<close>

definition except_pass :: "py_error option \<times> state \<Rightarrow> state" where
  "except_pass r = snd r"

text \<open>Lines 398 to 409.\<close>

definition progress_try :: "string \<Rightarrow> state \<Rightarrow> py_error option \<times> state" where
  "progress_try line s =
     (case re_search match_ratio line of
        None \<Rightarrow> (None, s)
      | Some (g1, g2) \<Rightarrow>
          (let s1 = s\<lparr>posts_count := py_int g1\<rparr>;
               total = py_int g2
           in case int_truediv (posts_count s1) total of
                Inl err \<Rightarrow> (Some err, s1)
              | Inr q \<Rightarrow>
                  (None, emit (PostsMetric (OfTotal (posts_count s1) total))
                           (emit (ProgressBar (min q 1)) s1))))"

definition progress_block :: "string \<Rightarrow> state \<Rightarrow> state" where
  "progress_block line s =
     (if contains ''Progress:'' line \<and> contains ''/'' line
      then except_pass (progress_try line s) else s)"

text \<open>Lines 412 to 420.\<close>

definition saved_block :: "string \<Rightarrow> state \<Rightarrow> state" where
  "saved_block line s =
     (if contains ''Saved'' line \<and> contains ''posts'' line
      then (case re_search match_saved line of
              None \<Rightarrow> s
            | Some g \<Rightarrow>
                (let s1 = s\<lparr>posts_count := posts_count s + py_int g\<rparr>
                 in emit (PostsMetric (Count (posts_count s1))) s1))
      else s)"

text \<open>Lines 423 to 431.\<close>

definition comments_block :: "string \<Rightarrow> state \<Rightarrow> state" where
  "comments_block line s =
     (if contains ''Comments:'' line
      then (case re_search (match_label ''Comments:'') line of
              None \<Rightarrow> s
            | Some g \<Rightarrow>
                (let s1 = s\<lparr>comments_count := py_int g\<rparr>
                 in emit (CommentsMetric (Count (comments_count s1))) s1))
      else s)"

text \<open>Lines 434 to 436.\<close>

definition fetching_block :: "string \<Rightarrow> state \<Rightarrow> state" where
  "fetching_block line s =
     (if contains ''Fetching comments for:'' line
      then (let s1 = s\<lparr>comments_count := comments_count s + 1\<rparr>
            in emit (CommentsMetric (Approx (comments_count s1))) s1)
      else s)"

text \<open>Lines 439 to 447.\<close>

definition images_block :: "string \<Rightarrow> state \<Rightarrow> state" where
  "images_block line s =
     (if contains ''Images:'' line
      then (case re_search (match_label ''Images:'') line of
              None \<Rightarrow> s
            | Some g \<Rightarrow>
                (let s1 = s\<lparr>images_count := py_int g\<rparr>
                 in emit (ImagesMetric (Count (images_count s1))) s1))
      else s)"

text \<open>Lines 450 to 458.\<close>

definition videos_block :: "string \<Rightarrow> state \<Rightarrow> state" where
  "videos_block line s =
     (if contains ''Videos:'' line
      then (case re_search (match_label ''Videos:'') line of
              None \<Rightarrow> s
            | Some g \<Rightarrow>
                (let s1 = s\<lparr>videos_count := py_int g\<rparr>
                 in emit (VideosMetric (Count (videos_count s1))) s1))
      else s)"

text \<open>
  Lines 461 to 467. In the source this \<^verbatim>\<open>try\<close> has lost its \<^verbatim>\<open>except\<close> clause; the block is
  taken with the handler of its five siblings. Nothing in its body raises.
\<close>

definition found_block :: "string \<Rightarrow> state \<Rightarrow> state" where
  "found_block line s =
     (if contains ''Found'' line \<and> contains ''posts'' line
      then (case re_search match_found line of
              None \<Rightarrow> s
            | Some g \<Rightarrow> emit (StatusInfoBatch (py_int g)) s)
      else s)"

definition patterns :: "string \<Rightarrow> state \<Rightarrow> state" where
  "patterns line s =
     found_block line (videos_block line (images_block line (fetching_block line
       (comments_block line (saved_block line (progress_block line s))))))"

subsection \<open>The loop\<close>

text \<open>
  Lines 470 to 472. \<open>elapsed\<close> is \<^verbatim>\<open>time.time() - start_time\<close>. The division converts
  \<^verbatim>\<open>posts_count\<close> to a \<^verbatim>\<open>float\<close> first, outside every \<^verbatim>\<open>try\<close> of the loop.
\<close>

definition status_update :: "real \<Rightarrow> state \<Rightarrow> py_error + state" where
  "status_update elapsed s =
     (if elapsed > 0
      then (case int_to_float (posts_count s) of
              Inl err \<Rightarrow> Inl err
            | Inr p \<Rightarrow> Inr (emit (StatusInfoRunning elapsed (p / elapsed)) s))
      else Inr (emit (StatusInfoRunning elapsed 0) s))"

text \<open>
  Lines 393 to 476, one iteration: the exception that ended it, if any, and the state reached.
\<close>

definition loop_body :: "real \<Rightarrow> byte list \<Rightarrow> state \<Rightarrow> py_error option \<times> state" where
  "loop_body elapsed raw_line s =
     (let line = decode raw_line;
          s1 = s\<lparr>output_lines := output_lines s @ [line]\<rparr>;
          s2 = patterns line s1
      in case status_update elapsed s2 of
           Inl err \<Rightarrow> (Some err, s2)
         | Inr s3 \<Rightarrow> (None, emit (OutputCode (concat (last_n 15 (output_lines s3)))) s3))"

text \<open>
  Lines 389 to 476. \<open>clock k\<close> is the value of \<^verbatim>\<open>time.time() - start_time\<close> when it is computed
  with \<open>k\<close> lines read before the current one (after the loop: with \<open>k\<close> lines read).
\<close>

fun pump :: "(nat \<Rightarrow> real) \<Rightarrow> byte list list \<Rightarrow> state \<Rightarrow> py_error option \<times> state" where
  "pump clock [] s = (None, s)"
| "pump clock (raw_line # rest) s =
     (case loop_body (clock (length (output_lines s))) raw_line s of
        (Some err, s') \<Rightarrow> (Some err, s')
      | (None, s') \<Rightarrow> pump clock rest s')"

subsection \<open>The whole run\<close>

record child =
  chunks :: "byte list list"
  ending :: stream_end
  returncode :: int

text \<open>\<open>spawn\<close> is \<open>None\<close> when \<^verbatim>\<open>subprocess.Popen\<close> raises.\<close>

record world =
  spawn :: "child option"
  clock :: "nat \<Rightarrow> real"

definition initial :: state where
  "initial = \<lparr>output_lines = [], posts_count = 0, comments_count = 0, images_count = 0,
              videos_count = 0, ui = []\<rparr>"

text \<open>Lines 478 to 488.\<close>

definition after_loop :: "real \<Rightarrow> int \<Rightarrow> state \<Rightarrow> state" where
  "after_loop elapsed rc s =
     (let s1 = emit (ProgressBar 1) s
      in if rc = 0 then emit Balloons (emit (StatusSuccess elapsed) s1)
         else emit (StCode (concat (last_n 30 (output_lines s1)))) (emit (StatusError rc) s1))"

text \<open>Lines 490 to 493.\<close>

definition on_exception :: "py_error \<Rightarrow> state \<Rightarrow> state" where
  "on_exception err s = emit StTraceback (emit (StError err) s)"

text \<open>Lines 364 to 493.\<close>

definition run :: "world \<Rightarrow> state" where
  "run w =
     (case spawn w of
        None \<Rightarrow> on_exception SpawnError initial
      | Some c \<Rightarrow>
          (case iter_readline (ending c) (chunks c) of
             (raw_lines, stop) \<Rightarrow>
               (case pump (clock w) raw_lines initial of
                  (Some err, s) \<Rightarrow> on_exception err s
                | (None, s) \<Rightarrow>
                    (case stop of
                       Some err \<Rightarrow> on_exception err s
                     | None \<Rightarrow>
                         after_loop (clock w (length (output_lines s))) (returncode c) s))))"


subsection \<open>The lines of a stream\<close>

text \<open>
  The lines of an octet stream taken as a whole, each with its terminating newline. What
  follows the last newline is a line of its own when the stream ends regularly, and is lost
  with the failed read otherwise. \<open>cur\<close> holds the octets of the line under way.
\<close>

fun lines_acc :: "stream_end \<Rightarrow> byte list \<Rightarrow> byte list \<Rightarrow> byte list list" where
  "lines_acc e cur [] = (if e = Eof \<and> cur \<noteq> [] then [cur] else [])"
| "lines_acc e cur (b # bs) =
     (if b = newline then (cur @ [b]) # lines_acc e [] bs else lines_acc e (cur @ [b]) bs)"

definition stream_lines :: "stream_end \<Rightarrow> byte list \<Rightarrow> byte list list" where
  "stream_lines e bs = lines_acc e [] bs"

definition iteration_end :: "stream_end \<Rightarrow> py_error option" where
  "iteration_end e = (case e of Eof \<Rightarrow> None | IoFailure \<Rightarrow> Some StreamError)"


subsection \<open>Reading the log\<close>

text \<open>
  Three ways to look at the log of widget calls. A call is a snapshot when it shows metrics,
  progress, running status or output of the loop; it is the outcome when it announces how the
  run ended (\<^verbatim>\<open>status_container.success\<close>, \<^verbatim>\<open>status_container.error\<close>, or \<^verbatim>\<open>st.error\<close> of the
  exception handler). The balloons, the block of the last 30 lines and the traceback come
  with the outcome.
\<close>

fun is_snapshot :: "ui_call \<Rightarrow> bool" where
  "is_snapshot (PostsMetric m) = True"
| "is_snapshot (CommentsMetric m) = True"
| "is_snapshot (ImagesMetric m) = True"
| "is_snapshot (VideosMetric m) = True"
| "is_snapshot (ProgressBar q) = True"
| "is_snapshot (StatusInfoBatch n) = True"
| "is_snapshot (StatusInfoRunning t r) = True"
| "is_snapshot (OutputCode text) = True"
| "is_snapshot c = False"

fun is_outcome :: "ui_call \<Rightarrow> bool" where
  "is_outcome (StatusSuccess t) = True"
| "is_outcome (StatusError rc) = True"
| "is_outcome (StError err) = True"
| "is_outcome c = False"

text \<open>What \<^verbatim>\<open>output_container\<close> shows after the calls of a log: the text of the last
  \<^verbatim>\<open>output_container.code\<close>, nothing before the first.\<close>

definition output_container :: "ui_call list \<Rightarrow> string" where
  "output_container calls =
     foldl (\<lambda>shown c. case c of OutputCode text \<Rightarrow> text | _ \<Rightarrow> shown) [] calls"

text \<open>The numbers a metric widget is given are not negative.\<close>

fun nonneg_metric :: "metric_text \<Rightarrow> bool" where
  "nonneg_metric (Count n) = (0 \<le> n)"
| "nonneg_metric (OfTotal n m) = (0 \<le> n \<and> 0 \<le> m)"
| "nonneg_metric (Approx n) = (0 \<le> n)"

fun nonneg_call :: "ui_call \<Rightarrow> bool" where
  "nonneg_call (PostsMetric m) = nonneg_metric m"
| "nonneg_call (CommentsMetric m) = nonneg_metric m"
| "nonneg_call (ImagesMetric m) = nonneg_metric m"
| "nonneg_call (VideosMetric m) = nonneg_metric m"
| "nonneg_call c = True"

text \<open>The state a run can be in: no counter and no number shown is negative.\<close>

definition counters_ok :: "state \<Rightarrow> bool" where
  "counters_ok s = (0 \<le> posts_count s \<and> 0 \<le> comments_count s \<and> 0 \<le> images_count s
                    \<and> 0 \<le> videos_count s \<and> list_all nonneg_call (ui s))"

subsection \<open>Five runs\<close>

text \<open>
  A child that reports progress twice and exits with 0, and a child that writes forty lines
  in which the loop finds nothing and exits with 2. In both
  the clock shows one more second at every line.
\<close>

definition scenario_a :: world where
  "scenario_a =
     \<lparr>spawn = Some \<lparr>chunks = [''Progress: 5/100 posts\<newline>'', ''Progress: 10/100 posts\<newline>''],
                     ending = Eof, returncode = 0\<rparr>,
      clock = (\<lambda>k. 1 + real k)\<rparr>"

definition scenario_d_lines :: "byte list list" where
  "scenario_d_lines =
     [''line 01\<newline>'', ''line 02\<newline>'', ''line 03\<newline>'', ''line 04\<newline>'', ''line 05\<newline>'',
      ''line 06\<newline>'', ''line 07\<newline>'', ''line 08\<newline>'', ''line 09\<newline>'', ''line 10\<newline>'',
      ''line 11\<newline>'', ''line 12\<newline>'', ''line 13\<newline>'', ''line 14\<newline>'', ''line 15\<newline>'',
      ''line 16\<newline>'', ''line 17\<newline>'', ''line 18\<newline>'', ''line 19\<newline>'', ''line 20\<newline>'',
      ''line 21\<newline>'', ''line 22\<newline>'', ''line 23\<newline>'', ''line 24\<newline>'', ''line 25\<newline>'',
      ''line 26\<newline>'', ''line 27\<newline>'', ''line 28\<newline>'', ''line 29\<newline>'', ''line 30\<newline>'',
      ''line 31\<newline>'', ''line 32\<newline>'', ''line 33\<newline>'', ''line 34\<newline>'', ''line 35\<newline>'',
      ''line 36\<newline>'', ''line 37\<newline>'', ''line 38\<newline>'', ''line 39\<newline>'', ''line 40\<newline>'']"

definition scenario_d :: world where
  "scenario_d =
     \<lparr>spawn = Some \<lparr>chunks = scenario_d_lines, ending = Eof, returncode = 2\<rparr>,
      clock = (\<lambda>k. 1 + real k)\<rparr>"

text \<open>
  A child that cannot be started, and a child whose stream fails after two complete lines and
  the beginning of a third.
\<close>

definition spawn_failure :: world where
  "spawn_failure = \<lparr>spawn = None, clock = (\<lambda>k. 1 + real k)\<rparr>"

definition stream_failure :: world where
  "stream_failure =
     \<lparr>spawn = Some \<lparr>chunks = [''Saved 3 new posts\<newline>Imag'', ''es: 2\<newline>Found 7 po''],
                     ending = IoFailure, returncode = 1\<rparr>,
      clock = (\<lambda>k. 1 + real k)\<rparr>"

text \<open>
  A child whose first line reports a count of 2 followed by 308 zeros, out of a total of 0.
\<close>

definition huge_progress_line :: "byte list" where
  "huge_progress_line = ''Progress: 2'' @ replicate 308 CHR ''0'' @ ''/0\<newline>''"

definition huge_progress :: world where
  "huge_progress =
     \<lparr>spawn = Some \<lparr>chunks = [huge_progress_line, ''Images: 2\<newline>''], ending = Eof, returncode = 0\<rparr>,
      clock = (\<lambda>k. 1 + real k)\<rparr>"

section \<open>Properties\<close>

subsection \<open>Reading lines\<close>

lemma read1_empty:
  "concat cs = [] \<Longrightarrow>
   read1 e cs = (case e of Eof \<Rightarrow> Inr None | IoFailure \<Rightarrow> Inl StreamError, [])"
  by (induction e cs rule: read1.induct) (auto split: stream_end.splits)

lemma readline_empty:
  "concat cs = [] \<Longrightarrow>
   readline e buf cs = (case e of Eof \<Rightarrow> Inr buf | IoFailure \<Rightarrow> Inl StreamError, [])"
  by (simp add: readline.simps [of e buf cs] read1_empty split: stream_end.splits)

lemma readline_newline:
  "concat cs = newline # rest \<Longrightarrow>
   \<exists>cs'. readline e buf cs = (Inr (buf @ [newline]), cs') \<and> concat cs' = rest"
proof -
  assume c: "concat cs = newline # rest"
  obtain r cs1 where r: "read1 e cs = (r, cs1)" by (cases "read1 e cs")
  have "r = Inr (Some newline) \<and> concat cs1 = rest"
    using c r by (induction e cs rule: read1.induct) (auto split: stream_end.splits)
  with r show ?thesis by (simp add: readline.simps [of e buf cs])
qed

lemma readline_other:
  "concat cs = b # rest \<Longrightarrow> b \<noteq> newline \<Longrightarrow>
   \<exists>cs1. readline e buf cs = readline e (buf @ [b]) cs1 \<and> concat cs1 = rest"
proof -
  assume c: "concat cs = b # rest" and b: "b \<noteq> newline"
  obtain r cs1 where r: "read1 e cs = (r, cs1)" by (cases "read1 e cs")
  have "r = Inr (Some b) \<and> concat cs1 = rest"
    using c r by (induction e cs rule: read1.induct) (auto split: stream_end.splits)
  with r b show ?thesis by (auto simp: readline.simps [of e buf cs])
qed


lemma iter_readline_from:
  "concat cs = bs \<Longrightarrow>
   (case readline e buf cs of
      (Inl err, cs') \<Rightarrow> ([], Some err)
    | (Inr l, cs') \<Rightarrow>
        if l = [] then ([], None)
        else (let (rest, ending) = iter_readline e cs' in (l # rest, ending)))
   = (lines_acc e buf bs, iteration_end e)"
proof (induction bs arbitrary: buf cs)
  case Nil
  then have r: "readline e buf cs = (case e of Eof \<Rightarrow> Inr buf | IoFailure \<Rightarrow> Inl StreamError, [])"
    by (rule readline_empty)
  have i: "iter_readline e [] = ([], iteration_end e)"
    by (simp add: iter_readline.simps [of e "[]"] readline_empty iteration_end_def
          split: stream_end.splits)
  from r i show ?case by (cases e) (simp_all add: iteration_end_def)
next
  case (Cons b bs)
  show ?case
  proof (cases "b = newline")
    case True
    with Cons.prems obtain cs' where
      r: "readline e buf cs = (Inr (buf @ [newline]), cs')" and c: "concat cs' = bs"
      using readline_newline by blast
    have "iter_readline e cs' = (lines_acc e [] bs, iteration_end e)"
      using Cons.IH [OF c, of "[]"] by (simp add: iter_readline.simps [of e cs'])
    with r True show ?thesis by simp
  next
    case False
    with Cons.prems obtain cs1 where
      r: "readline e buf cs = readline e (buf @ [b]) cs1" and c: "concat cs1 = bs"
      using readline_other by blast
    from Cons.IH [OF c, of "buf @ [b]"] r False show ?thesis by simp
  qed
qed

lemma iter_readline_stream_lines:
  "iter_readline e cs = (stream_lines e (concat cs), iteration_end e)"
  using iter_readline_from [of cs "concat cs" e "[]"]
  by (simp add: iter_readline.simps [of e cs] stream_lines_def)

lemma lines_acc_terminated:
  "\<forall>l \<in> set ls. newline \<notin> set l \<Longrightarrow> newline \<notin> set l0 \<Longrightarrow>
   lines_acc e cur (l0 @ newline # concat (map (\<lambda>l. l @ [newline]) ls))
     = (cur @ l0 @ [newline]) # map (\<lambda>l. l @ [newline]) ls"
proof (induction ls arbitrary: cur l0)
  case Nil
  then show ?case by (induction l0 arbitrary: cur) auto
next
  case (Cons l ls)
  from Cons.prems(2) show ?case
  proof (induction l0 arbitrary: cur)
    case Nil
    from Cons.IH [of l "[]"] Cons.prems(1) show ?case by simp
  next
    case (Cons a l0)
    then show ?case by auto
  qed
qed

lemma stream_lines_terminated:
  "\<forall>l \<in> set ls. newline \<notin> set l \<Longrightarrow>
   stream_lines e (concat (map (\<lambda>l. l @ [newline]) ls)) = map (\<lambda>l. l @ [newline]) ls"
  by (cases ls) (simp_all add: stream_lines_def lines_acc_terminated)


lemma take_continuations_newline:
  "\<forall>r \<in> set rs. 10 < fst r \<Longrightarrow>
   take_continuations rs (bs @ [newline])
     = (case take_continuations rs bs of (ok, rest) \<Rightarrow> (ok, rest @ [newline]))"
  by (induction rs bs rule: take_continuations.induct) (auto simp: newline_def)

lemma take_continuations_ok:
  "take_continuations rs bs = (True, rest) \<Longrightarrow> length rs \<le> length bs"
  by (induction rs bs rule: take_continuations.induct) (auto split: if_splits)

lemma continuation_ranges_high:
  "continuation_ranges b = Some rs \<Longrightarrow> \<forall>r \<in> set rs. 10 < fst r"
  by (auto simp: continuation_ranges_def split: if_splits)

lemma decode_newline: "decode (bs @ [newline]) = decode bs @ [newline]"
proof (induction bs rule: decode.induct)
  case 1
  show ?case by (simp add: newline_def)
next
  case (2 b bs)
  show ?case
  proof (cases "(of_char b :: nat) < 0x80")
    case True
    with 2 show ?thesis by simp
  next
    case False
    show ?thesis
    proof (cases "continuation_ranges (of_char b)")
      case None
      with False 2 show ?thesis by simp
    next
      case (Some rs)
      obtain ok rest where t: "take_continuations rs bs = (ok, rest)"
        by (cases "take_continuations rs bs")
      from Some have "\<forall>r \<in> set rs. 10 < fst r" by (rule continuation_ranges_high)
      then have t': "take_continuations rs (bs @ [newline]) = (ok, rest @ [newline])"
        using t by (simp add: take_continuations_newline)
      have ih: "decode (rest @ [newline]) = decode rest @ [newline]"
        using "2.IH" False Some t by (cases ok) auto
      show ?thesis
      proof (cases ok)
        case True
        with t have "length rs \<le> length bs" by (simp add: take_continuations_ok)
        with False Some t t' ih True show ?thesis by simp
      next
        case False
        with \<open>\<not> of_char b < 128\<close> Some t t' ih show ?thesis by simp
      qed
    qed
  qed
qed


text \<open>
  C4 (as amended). For an octet stream made of N newline-terminated lines, however it is cut
  into chunks (also in the middle of a line, also with empty chunks), the iteration over
  \<^verbatim>\<open>readline\<close> yields exactly those N lines, in arrival order, and then ends regularly;
  any other way of cutting the same stream gives the same result. Each line keeps its
  terminating newline, as a raw line and after decoding; it is not stripped.
\<close>

theorem lines_rechunking:
  assumes "\<forall>l \<in> set ls. newline \<notin> set l"
    and "concat cs = concat (map (\<lambda>l. l @ [newline]) ls)"
  shows "iter_readline Eof cs = (map (\<lambda>l. l @ [newline]) ls, None)
         \<and> map decode (fst (iter_readline Eof cs)) = map (\<lambda>l. decode l @ [newline]) ls
         \<and> (concat cs' = concat cs \<longrightarrow> iter_readline Eof cs' = iter_readline Eof cs)"
proof -
  have "iter_readline Eof cs = (map (\<lambda>l. l @ [newline]) ls, None)"
    using assms by (simp add: iter_readline_stream_lines stream_lines_terminated iteration_end_def)
  then show ?thesis by (simp add: decode_newline iter_readline_stream_lines)
qed

theorem lines_rechunking_witness:
  "newline \<notin> set ''Progress: 5/10'' \<and> newline \<notin> set ''Images: 3''
   \<and> concat [''Pro'', ''gress: 5/10\<newline>Ima'', [], ''ges: 3\<newline>'']
       = concat (map (\<lambda>l. l @ [newline]) [''Progress: 5/10'', ''Images: 3''])
   \<and> iter_readline Eof [''Pro'', ''gress: 5/10\<newline>Ima'', [], ''ges: 3\<newline>'']
       = ([''Progress: 5/10\<newline>'', ''Images: 3\<newline>''], None)
   \<and> iter_readline Eof [''Progress: 5/10\<newline>Images: 3\<newline>'']
       = ([''Progress: 5/10\<newline>'', ''Images: 3\<newline>''], None)"
  using lines_rechunking [of "[''Progress: 5/10'', ''Images: 3'']"
      "[''Pro'', ''gress: 5/10\<newline>Ima'', [], ''ges: 3\<newline>'']"
      "[''Progress: 5/10\<newline>Images: 3\<newline>'']"]
  by (simp add: newline_def)

text \<open>
  C4 as stated asks for newline-stripped lines. The stream \<^verbatim>\<open>abc\n\<close>, arriving as \<^verbatim>\<open>ab\<close>
  and \<^verbatim>\<open>c\n\<close>, gives the one line \<^verbatim>\<open>abc\n\<close>, not \<^verbatim>\<open>abc\<close>.
\<close>

theorem lines_keep_newline_counterexample:
  "map decode (fst (iter_readline Eof [''ab'', ''c\<newline>''])) \<noteq> [''abc'']"
  by (simp add: iter_readline_stream_lines stream_lines_def newline_def)

subsection \<open>What the patterns match\<close>

lemma re_search_label_contains:
  "re_search (match_label label) s = Some g \<Longrightarrow> contains label s"
proof (induction s)
  case Nil
  then show ?case by (cases label) (simp_all add: match_label_def)
next
  case (Cons c cs)
  have sw: "\<And>t r. after_literal label t = Some r \<Longrightarrow> starts_with label t"
  proof -
    fix t r show "after_literal label t = Some r \<Longrightarrow> starts_with label t"
      by (induction label t rule: after_literal.induct) (auto split: if_splits)
  qed
  show ?case
  proof (cases "match_label label (c # cs)")
    case None
    with Cons show ?thesis by simp
  next
    case (Some g')
    then have "starts_with label (c # cs)"
      by (auto simp: match_label_def split: option.splits intro: sw)
    then show ?thesis by simp
  qed
qed

lemma re_search_some: "re_search m s = Some g \<Longrightarrow> \<exists>t. m t = Some g"
  by (induction s) (auto split: option.splits)

lemma digits_takeWhile: "\<forall>c \<in> set (takeWhile is_digit s). is_digit c"
  by (auto dest: set_takeWhileD)

lemma match_label_digits: "re_search (match_label label) s = Some g \<Longrightarrow> \<forall>c \<in> set g. is_digit c"
  by (auto dest!: re_search_some simp: match_label_def Let_def split: option.splits if_splits dest: set_takeWhileD)

lemma match_saved_digits: "re_search match_saved s = Some g \<Longrightarrow> \<forall>c \<in> set g. is_digit c"
  by (auto dest!: re_search_some simp: match_saved_def Let_def split: option.splits if_splits dest: set_takeWhileD)

lemma match_found_digits: "re_search match_found s = Some g \<Longrightarrow> \<forall>c \<in> set g. is_digit c"
  by (auto dest!: re_search_some simp: match_found_def Let_def split: option.splits if_splits dest: set_takeWhileD)

lemma match_ratio_digits:
  "re_search match_ratio s = Some (g1, g2) \<Longrightarrow> (\<forall>c \<in> set g1. is_digit c) \<and> (\<forall>c \<in> set g2. is_digit c)"
  by (auto dest!: re_search_some simp: match_ratio_def Let_def split: option.splits if_splits list.splits dest: set_takeWhileD)

lemma digit_value_nonneg: "is_digit c \<Longrightarrow> 0 \<le> digit_value c"
  by (auto simp: is_digit_def digit_value_def)

lemma py_int_nonneg_acc:
  "\<forall>c \<in> set g. is_digit c \<Longrightarrow> 0 \<le> acc \<Longrightarrow> 0 \<le> foldl (\<lambda>acc c. 10 * acc + digit_value c) acc g"
  by (induction g arbitrary: acc) (auto simp: digit_value_nonneg)

lemma py_int_nonneg: "\<forall>c \<in> set g. is_digit c \<Longrightarrow> 0 \<le> py_int g"
  by (simp add: py_int_def py_int_nonneg_acc)

subsection \<open>What each block does to the counters\<close>

lemmas block_defs = progress_block_def progress_try_def except_pass_def saved_block_def
  comments_block_def fetching_block_def images_block_def videos_block_def found_block_def
  emit_def Let_def

lemma progress_block_frame:
  "comments_count (progress_block l s) = comments_count s"
  "images_count (progress_block l s) = images_count s"
  "videos_count (progress_block l s) = videos_count s"
  "output_lines (progress_block l s) = output_lines s"
  by (simp_all add: block_defs split: option.splits sum.splits prod.splits)

lemma saved_block_frame:
  "comments_count (saved_block l s) = comments_count s"
  "images_count (saved_block l s) = images_count s"
  "videos_count (saved_block l s) = videos_count s"
  "output_lines (saved_block l s) = output_lines s"
  by (simp_all add: block_defs split: option.splits)

lemma comments_block_frame:
  "posts_count (comments_block l s) = posts_count s"
  "images_count (comments_block l s) = images_count s"
  "videos_count (comments_block l s) = videos_count s"
  "output_lines (comments_block l s) = output_lines s"
  by (simp_all add: block_defs split: option.splits)

lemma fetching_block_frame:
  "posts_count (fetching_block l s) = posts_count s"
  "images_count (fetching_block l s) = images_count s"
  "videos_count (fetching_block l s) = videos_count s"
  "output_lines (fetching_block l s) = output_lines s"
  by (simp_all add: block_defs)

lemma images_block_frame:
  "posts_count (images_block l s) = posts_count s"
  "comments_count (images_block l s) = comments_count s"
  "videos_count (images_block l s) = videos_count s"
  "output_lines (images_block l s) = output_lines s"
  by (simp_all add: block_defs split: option.splits)

lemma videos_block_frame:
  "posts_count (videos_block l s) = posts_count s"
  "comments_count (videos_block l s) = comments_count s"
  "images_count (videos_block l s) = images_count s"
  "output_lines (videos_block l s) = output_lines s"
  by (simp_all add: block_defs split: option.splits)

lemma found_block_frame:
  "posts_count (found_block l s) = posts_count s"
  "comments_count (found_block l s) = comments_count s"
  "images_count (found_block l s) = images_count s"
  "videos_count (found_block l s) = videos_count s"
  "output_lines (found_block l s) = output_lines s"
  by (simp_all add: block_defs split: option.splits)

lemmas frame = progress_block_frame saved_block_frame comments_block_frame fetching_block_frame
  images_block_frame videos_block_frame found_block_frame

lemma progress_block_posts:
  "posts_count (progress_block l s) =
     (if contains ''Progress:'' l \<and> contains ''/'' l
      then (case re_search match_ratio l of None \<Rightarrow> posts_count s | Some (g1, g2) \<Rightarrow> py_int g1)
      else posts_count s)"
  by (simp add: block_defs split: option.splits sum.splits prod.splits)

lemma saved_block_posts:
  "posts_count (saved_block l s) =
     posts_count s +
     (if contains ''Saved'' l \<and> contains ''posts'' l
      then (case re_search match_saved l of None \<Rightarrow> 0 | Some g \<Rightarrow> py_int g) else 0)"
  by (simp add: block_defs split: option.splits)

lemma comments_block_comments:
  "comments_count (comments_block l s) =
     (case re_search (match_label ''Comments:'') l of
        None \<Rightarrow> comments_count s | Some g \<Rightarrow> py_int g)"
  by (auto simp: block_defs split: option.splits dest: re_search_label_contains)

lemma fetching_block_comments:
  "comments_count (fetching_block l s) =
     comments_count s + (if contains ''Fetching comments for:'' l then 1 else 0)"
  by (simp add: block_defs)

lemma images_block_images:
  "images_count (images_block l s) =
     (case re_search (match_label ''Images:'') l of
        None \<Rightarrow> images_count s | Some g \<Rightarrow> py_int g)"
  by (auto simp: block_defs split: option.splits dest: re_search_label_contains)

lemma videos_block_videos:
  "videos_count (videos_block l s) =
     (case re_search (match_label ''Videos:'') l of
        None \<Rightarrow> videos_count s | Some g \<Rightarrow> py_int g)"
  by (auto simp: block_defs split: option.splits dest: re_search_label_contains)

lemma patterns_posts:
  "posts_count (patterns l s) =
     (if contains ''Progress:'' l \<and> contains ''/'' l
      then (case re_search match_ratio l of None \<Rightarrow> posts_count s | Some (g1, g2) \<Rightarrow> py_int g1)
      else posts_count s) +
     (if contains ''Saved'' l \<and> contains ''posts'' l
      then (case re_search match_saved l of None \<Rightarrow> 0 | Some g \<Rightarrow> py_int g) else 0)"
  by (simp add: patterns_def frame saved_block_posts progress_block_posts)

lemma patterns_comments:
  "comments_count (patterns l s) =
     (case re_search (match_label ''Comments:'') l of
        None \<Rightarrow> comments_count s | Some g \<Rightarrow> py_int g) +
     (if contains ''Fetching comments for:'' l then 1 else 0)"
  by (simp add: patterns_def frame fetching_block_comments comments_block_comments split: option.splits)

lemma patterns_images:
  "images_count (patterns l s) =
     (case re_search (match_label ''Images:'') l of
        None \<Rightarrow> images_count s | Some g \<Rightarrow> py_int g)"
  by (simp add: patterns_def frame images_block_images split: option.splits)

lemma patterns_videos:
  "videos_count (patterns l s) =
     (case re_search (match_label ''Videos:'') l of
        None \<Rightarrow> videos_count s | Some g \<Rightarrow> py_int g)"
  by (simp add: patterns_def frame videos_block_videos split: option.splits)

lemma patterns_output_lines: "output_lines (patterns l s) = output_lines s"
  by (simp add: patterns_def frame)

subsection \<open>One line, several patterns\<close>

lemma contains_single: "contains [c] s = (c \<in> set s)"
  by (induction s) auto

lemma match_ratio_slash: "match_ratio t = Some g \<Longrightarrow> CHR ''/'' \<in> set t"
proof -
  assume "match_ratio t = Some g"
  then obtain r where "dropWhile is_space (dropWhile is_digit t) = CHR ''/'' # r"
    by (auto simp: match_ratio_def Let_def split: if_splits list.splits)
  then have "CHR ''/'' \<in> set (dropWhile is_space (dropWhile is_digit t))" by simp
  then show ?thesis by (blast dest: set_dropWhileD)
qed

lemma re_search_ratio_contains: "re_search match_ratio s = Some g \<Longrightarrow> contains ''/'' s"
proof -
  have "re_search match_ratio s = Some g \<Longrightarrow> CHR ''/'' \<in> set s"
    by (induction s) (auto split: option.splits dest: match_ratio_slash)
  then show "re_search match_ratio s = Some g \<Longrightarrow> contains ''/'' s"
    by (simp add: contains_single)
qed

text \<open>
  C1 (as amended). Every line is run through all seven pattern blocks, in the fixed order of
  the source, and no block depends on whether an earlier one matched: each counter ends as
  its own blocks alone would leave it. A line with the triggers and payloads of several
  patterns therefore updates the counter of each of them; a line with both a
  \<^verbatim>\<open>Progress:\<close> pair and an \<^verbatim>\<open>Images:\<close> count sets \<^verbatim>\<open>posts_count\<close> and
  \<^verbatim>\<open>images_count\<close>.
\<close>

theorem patterns_all_applied:
  "posts_count (patterns line s) = posts_count (saved_block line (progress_block line s))
   \<and> comments_count (patterns line s) = comments_count (fetching_block line (comments_block line s))
   \<and> images_count (patterns line s) = images_count (images_block line s)
   \<and> videos_count (patterns line s) = videos_count (videos_block line s)
   \<and> (contains ''Progress:'' line \<and> re_search match_ratio line = Some (g1, g2)
        \<and> re_search (match_label ''Images:'') line = Some g
        \<and> \<not> (contains ''Saved'' line \<and> contains ''posts'' line)
      \<longrightarrow> posts_count (patterns line s) = py_int g1 \<and> images_count (patterns line s) = py_int g)"
  by (auto simp: patterns_posts patterns_comments patterns_images patterns_videos
      saved_block_posts progress_block_posts frame fetching_block_comments
      comments_block_comments images_block_images videos_block_videos
      dest: re_search_ratio_contains)

theorem patterns_all_applied_witness:
  "posts_count (patterns ''Progress: 5/10 Images: 3\<newline>'' initial) = 5
   \<and> images_count (patterns ''Progress: 5/10 Images: 3\<newline>'' initial) = 3
   \<and> comments_count (patterns ''Progress: 5/10 Images: 3\<newline>'' initial) = 0
   \<and> videos_count (patterns ''Progress: 5/10 Images: 3\<newline>'' initial) = 0"
  using patterns_all_applied [of "''Progress: 5/10 Images: 3\<newline>''" initial "''5''" "''10''" "''3''"]
  by (simp add: block_defs match_ratio_def match_label_def is_digit_def is_space_def
      py_int_def digit_value_def initial_def int_truediv_def float_limit_def)

text \<open>
  C1 as stated lets the earliest matching pattern win. The line
  \<^verbatim>\<open>Progress: 5/10 Images: 3\<close> changes two counters.
\<close>

theorem first_match_wins_counterexample:
  "posts_count (patterns ''Progress: 5/10 Images: 3\<newline>'' initial) = 5
   \<and> posts_count initial = 0
   \<and> images_count (patterns ''Progress: 5/10 Images: 3\<newline>'' initial) = 3
   \<and> images_count initial = 0"
  by (simp add: patterns_posts patterns_images match_ratio_def match_label_def is_digit_def
      is_space_def py_int_def digit_value_def initial_def)

subsection \<open>The loop body and the loop\<close>

lemma status_update_fields:
  "status_update t s = Inr s' \<Longrightarrow>
   posts_count s' = posts_count s \<and> comments_count s' = comments_count s
   \<and> images_count s' = images_count s \<and> videos_count s' = videos_count s
   \<and> output_lines s' = output_lines s"
  by (auto simp: status_update_def emit_def split: if_splits sum.splits)

lemma patterns_lines_irrelevant:
  "posts_count (patterns l (s\<lparr>output_lines := x\<rparr>)) = posts_count (patterns l s)"
  "comments_count (patterns l (s\<lparr>output_lines := x\<rparr>)) = comments_count (patterns l s)"
  "images_count (patterns l (s\<lparr>output_lines := x\<rparr>)) = images_count (patterns l s)"
  "videos_count (patterns l (s\<lparr>output_lines := x\<rparr>)) = videos_count (patterns l s)"
  by (simp_all add: patterns_posts patterns_comments patterns_images patterns_videos
      split: option.splits)

lemma loop_body_fields:
  assumes "loop_body t raw s = (e, s')"
  shows "posts_count s' = posts_count (patterns (decode raw) s)"
    and "comments_count s' = comments_count (patterns (decode raw) s)"
    and "images_count s' = images_count (patterns (decode raw) s)"
    and "videos_count s' = videos_count (patterns (decode raw) s)"
    and "output_lines s' = output_lines s @ [decode raw]"
  using assms
  by (auto simp: loop_body_def Let_def emit_def patterns_lines_irrelevant patterns_output_lines
      split: sum.splits dest!: status_update_fields)

lemma loop_body_normal:
  "fst (loop_body t raw s) = None \<longleftrightarrow>
   \<not> (0 < t \<and> float_limit \<le> \<bar>posts_count (patterns (decode raw) s)\<bar>)"
  by (auto simp: loop_body_def Let_def status_update_def int_to_float_def
      patterns_lines_irrelevant split: sum.splits if_splits)

lemma pump_append:
  "fst (pump clk (xs @ ys) s) = None \<longleftrightarrow>
   fst (pump clk xs s) = None \<and> fst (pump clk ys (snd (pump clk xs s))) = None"
  "fst (pump clk xs s) = None \<Longrightarrow>
   snd (pump clk (xs @ ys) s) = snd (pump clk ys (snd (pump clk xs s)))"
  by (induction xs arbitrary: s) (auto split: prod.splits option.splits)

lemma pump_output_lines:
  "fst (pump clk raws s) = None \<Longrightarrow>
   output_lines (snd (pump clk raws s)) = output_lines s @ map decode raws"
  by (induction raws arbitrary: s) (auto split: prod.splits option.splits dest: loop_body_fields(5))

lemma pump_images_kept:
  "\<forall>x \<in> set raws. re_search (match_label ''Images:'') (decode x) = None \<Longrightarrow>
   images_count (snd (pump clk raws s)) = images_count s"
proof (induction raws arbitrary: s)
  case Nil
  show ?case by simp
next
  case (Cons r raws)
  obtain e s1 where l: "loop_body (clk (length (output_lines s))) r s = (e, s1)"
    by (cases "loop_body (clk (length (output_lines s))) r s")
  from loop_body_fields(3) [OF l] Cons.prems have "images_count s1 = images_count s"
    by (simp add: patterns_images)
  with l Cons show ?case by (cases e) simp_all
qed

lemma pump_videos_kept:
  "\<forall>x \<in> set raws. re_search (match_label ''Videos:'') (decode x) = None \<Longrightarrow>
   videos_count (snd (pump clk raws s)) = videos_count s"
proof (induction raws arbitrary: s)
  case Nil
  show ?case by simp
next
  case (Cons r raws)
  obtain e s1 where l: "loop_body (clk (length (output_lines s))) r s = (e, s1)"
    by (cases "loop_body (clk (length (output_lines s))) r s")
  from loop_body_fields(4) [OF l] Cons.prems have "videos_count s1 = videos_count s"
    by (simp add: patterns_videos)
  with l Cons show ?case by (cases e) simp_all
qed

lemma pump_step_fields:
  assumes "fst (pump clk [r] s) = None"
  shows "images_count (snd (pump clk [r] s)) = images_count (patterns (decode r) s)"
    and "videos_count (snd (pump clk [r] s)) = videos_count (patterns (decode r) s)"
    and "comments_count (snd (pump clk [r] s)) = comments_count (patterns (decode r) s)"
    and "posts_count (snd (pump clk [r] s)) = posts_count (patterns (decode r) s)"
  using assms
  by (auto split: prod.splits option.splits dest: loop_body_fields)

subsection \<open>Absolute counts\<close>

lemmas eval_text = match_ratio_def match_saved_def match_label_def match_found_def is_digit_def
  is_space_def py_int_def digit_value_def newline_def

text \<open>
  C7. The loop handles the lines in the order of their arrival, and an \<^verbatim>\<open>Images:\<close> or
  \<^verbatim>\<open>Videos:\<close> count overwrites its counter: when the loop has run through the lines, each of
  the two counters holds the payload of the last line that carried a count for it (and its
  old value if there was none). For the lines \<^verbatim>\<open>Images: 3\<close>, \<^verbatim>\<open>Videos: 1\<close>,
  \<^verbatim>\<open>Images: 7\<close> that is \<^verbatim>\<open>images_count = 7\<close> and \<^verbatim>\<open>videos_count = 1\<close>.
\<close>

theorem absolute_overwrite_in_order:
  assumes "fst (pump clk raws s) = None"
  shows "(raws = pre @ r # post
          \<and> re_search (match_label ''Images:'') (decode r) = Some g
          \<and> (\<forall>x \<in> set post. re_search (match_label ''Images:'') (decode x) = None)
          \<longrightarrow> images_count (snd (pump clk raws s)) = py_int g)
       \<and> (raws = pre' @ r' # post'
          \<and> re_search (match_label ''Videos:'') (decode r') = Some g'
          \<and> (\<forall>x \<in> set post'. re_search (match_label ''Videos:'') (decode x) = None)
          \<longrightarrow> videos_count (snd (pump clk raws s)) = py_int g')
       \<and> ((\<forall>x \<in> set raws. re_search (match_label ''Images:'') (decode x) = None)
          \<longrightarrow> images_count (snd (pump clk raws s)) = images_count s)
       \<and> ((\<forall>x \<in> set raws. re_search (match_label ''Videos:'') (decode x) = None)
          \<longrightarrow> videos_count (snd (pump clk raws s)) = videos_count s)"
proof -
  have split3: "\<And>a b c. fst (pump clk (a @ b # c) s) = None \<Longrightarrow>
      snd (pump clk (a @ b # c) s)
        = snd (pump clk c (snd (pump clk [b] (snd (pump clk a s)))))
      \<and> fst (pump clk [b] (snd (pump clk a s))) = None"
  proof -
    fix a b c
    assume n: "fst (pump clk (a @ b # c) s) = None"
    have e: "a @ b # c = a @ ([b] @ c)" by simp
    from n have 1: "fst (pump clk a s) = None"
      and 2: "fst (pump clk ([b] @ c) (snd (pump clk a s))) = None"
      unfolding e pump_append(1) by simp_all
    from 2 have 3: "fst (pump clk [b] (snd (pump clk a s))) = None"
      unfolding pump_append(1) by simp
    from 1 have "snd (pump clk (a @ ([b] @ c)) s) = snd (pump clk ([b] @ c) (snd (pump clk a s)))"
      by (rule pump_append(2))
    also from 3 have "\<dots> = snd (pump clk c (snd (pump clk [b] (snd (pump clk a s)))))"
      by (rule pump_append(2))
    finally show "snd (pump clk (a @ b # c) s)
        = snd (pump clk c (snd (pump clk [b] (snd (pump clk a s)))))
      \<and> fst (pump clk [b] (snd (pump clk a s))) = None"
      using 3 by simp
  qed
  have images: "images_count (snd (pump clk raws s)) = py_int g"
    if "raws = pre @ r # post" "re_search (match_label ''Images:'') (decode r) = Some g"
      "\<forall>x \<in> set post. re_search (match_label ''Images:'') (decode x) = None"
  proof -
    from assms that(1) split3 [of pre r post]
    have "snd (pump clk raws s) = snd (pump clk post (snd (pump clk [r] (snd (pump clk pre s)))))"
      and n: "fst (pump clk [r] (snd (pump clk pre s))) = None" by simp_all
    then have "images_count (snd (pump clk raws s))
        = images_count (snd (pump clk [r] (snd (pump clk pre s))))"
      using that(3) by (simp add: pump_images_kept)
    also have "\<dots> = py_int g"
      using pump_step_fields(1) [OF n] that(2) by (simp add: patterns_images)
    finally show ?thesis .
  qed
  have videos: "videos_count (snd (pump clk raws s)) = py_int g'"
    if "raws = pre' @ r' # post'" "re_search (match_label ''Videos:'') (decode r') = Some g'"
      "\<forall>x \<in> set post'. re_search (match_label ''Videos:'') (decode x) = None"
  proof -
    from assms that(1) split3 [of pre' r' post']
    have "snd (pump clk raws s) = snd (pump clk post' (snd (pump clk [r'] (snd (pump clk pre' s)))))"
      and n: "fst (pump clk [r'] (snd (pump clk pre' s))) = None" by simp_all
    then have "videos_count (snd (pump clk raws s))
        = videos_count (snd (pump clk [r'] (snd (pump clk pre' s))))"
      using that(3) by (simp add: pump_videos_kept)
    also have "\<dots> = py_int g'"
      using pump_step_fields(2) [OF n] that(2) by (simp add: patterns_videos)
    finally show ?thesis .
  qed
  from images videos show ?thesis by (simp add: pump_images_kept pump_videos_kept)
qed

theorem absolute_overwrite_in_order_witness:
  "fst (pump (\<lambda>k. 1) [''Images: 3\<newline>'', ''Videos: 1\<newline>'', ''Images: 7\<newline>''] initial) = None
   \<and> images_count (snd (pump (\<lambda>k. 1) [''Images: 3\<newline>'', ''Videos: 1\<newline>'', ''Images: 7\<newline>''] initial)) = 7
   \<and> videos_count (snd (pump (\<lambda>k. 1) [''Images: 3\<newline>'', ''Videos: 1\<newline>'', ''Images: 7\<newline>''] initial)) = 1"
proof -
  have n: "fst (pump (\<lambda>k. 1) [''Images: 3\<newline>'', ''Videos: 1\<newline>'', ''Images: 7\<newline>''] initial) = None"
    by code_simp
  from absolute_overwrite_in_order [OF n,
      of "[''Images: 3\<newline>'', ''Videos: 1\<newline>'']" "''Images: 7\<newline>''" "[]" "''7''"
         "[''Images: 3\<newline>'']" "''Videos: 1\<newline>''" "[''Images: 7\<newline>'']" "''1''"]
  show ?thesis using n by (simp add: eval_text)
qed

subsection \<open>Comment counts\<close>

lemma pump_fetching_lines:
  "fst (pump clk raws s) = None \<Longrightarrow>
   \<forall>r \<in> set raws. contains ''Fetching comments for:'' (decode r)
       \<and> re_search (match_label ''Comments:'') (decode r) = None \<Longrightarrow>
   comments_count (snd (pump clk raws s)) = comments_count s + int (length raws)"
proof (induction raws arbitrary: s)
  case Nil
  show ?case by simp
next
  case (Cons r raws)
  obtain e s1 where l: "loop_body (clk (length (output_lines s))) r s = (e, s1)"
    by (cases "loop_body (clk (length (output_lines s))) r s")
  with Cons.prems(1) have e: "e = None" by (cases e) simp_all
  from loop_body_fields(2) [OF l] Cons.prems(2)
  have c: "comments_count s1 = comments_count s + 1" by (simp add: patterns_comments)
  from l e Cons.prems(1) have "fst (pump clk raws s1) = None" by simp
  from Cons.IH [OF this] Cons.prems(2) c l e show ?case by simp
qed

text \<open>
  C2 (as amended). The loop keeps no record of an absolute \<^verbatim>\<open>Comments:\<close> value having been
  seen: every line that contains \<^verbatim>\<open>Fetching comments for:\<close> adds 1 to \<^verbatim>\<open>comments_count\<close>,
  before and after such a value. A line with the count \<open>n\<close> followed by \<open>k\<close> lines that
  contain \<^verbatim>\<open>Fetching comments for:\<close> (and no count of their own) leaves
  \<^verbatim>\<open>comments_count\<close> at \<open>n + k\<close>.
\<close>

theorem fetching_increments_after_total:
  assumes "fst (pump clk (raw0 # raws) s) = None"
    and "re_search (match_label ''Comments:'') (decode raw0) = Some g"
    and "\<not> contains ''Fetching comments for:'' (decode raw0)"
    and "\<forall>r \<in> set raws. contains ''Fetching comments for:'' (decode r)
           \<and> re_search (match_label ''Comments:'') (decode r) = None"
  shows "comments_count (snd (pump clk (raw0 # raws) s)) = py_int g + int (length raws)"
proof -
  obtain e s1 where l: "loop_body (clk (length (output_lines s))) raw0 s = (e, s1)"
    by (cases "loop_body (clk (length (output_lines s))) raw0 s")
  with assms(1) have e: "e = None" by (cases e) simp_all
  from loop_body_fields(2) [OF l] assms(2,3)
  have c: "comments_count s1 = py_int g" by (simp add: patterns_comments)
  from l e assms(1) have n: "fst (pump clk raws s1) = None" by simp
  from pump_fetching_lines [OF n assms(4)] c l e show ?thesis by simp
qed

theorem fetching_increments_after_total_witness:
  "fst (pump (\<lambda>k. 1) [''Comments: 5\<newline>'', ''Fetching comments for: t3_a\<newline>'',
                       ''Fetching comments for: t3_b\<newline>''] initial) = None
   \<and> re_search (match_label ''Comments:'') (decode ''Comments: 5\<newline>'') = Some ''5''
   \<and> \<not> contains ''Fetching comments for:'' (decode ''Comments: 5\<newline>'')
   \<and> comments_count (snd (pump (\<lambda>k. 1) [''Comments: 5\<newline>'', ''Fetching comments for: t3_a\<newline>'',
                       ''Fetching comments for: t3_b\<newline>''] initial)) = 7"
proof -
  have n: "fst (pump (\<lambda>k. 1) [''Comments: 5\<newline>'', ''Fetching comments for: t3_a\<newline>'',
                       ''Fetching comments for: t3_b\<newline>''] initial) = None"
    by code_simp
  have g: "re_search (match_label ''Comments:'') (decode ''Comments: 5\<newline>'') = Some ''5''"
    by (simp add: eval_text)
  have f: "\<not> contains ''Fetching comments for:'' (decode ''Comments: 5\<newline>'')"
    by simp
  have r: "\<forall>r \<in> set [''Fetching comments for: t3_a\<newline>'', ''Fetching comments for: t3_b\<newline>''].
      contains ''Fetching comments for:'' (decode r)
      \<and> re_search (match_label ''Comments:'') (decode r) = None"
    by (simp add: eval_text)
  from fetching_increments_after_total [OF n g f r] n g f show ?thesis
    by (simp add: py_int_def digit_value_def)
qed

text \<open>
  C2 as stated keeps the absolute value: after \<^verbatim>\<open>Comments: 5\<close> a
  \<^verbatim>\<open>Fetching comments for:\<close> line would leave 5. The run ends with 6.
\<close>

theorem comments_total_not_final_counterexample:
  "comments_count (run \<lparr>spawn = Some \<lparr>chunks = [''Comments: 5\<newline>Fetching comments for: t3_a\<newline>''],
       ending = Eof, returncode = 0\<rparr>, clock = (\<lambda>k. 1)\<rparr>) = 6"
  by code_simp

subsection \<open>Counters are never negative\<close>

lemma py_int_label: "re_search (match_label label) l = Some g \<Longrightarrow> 0 \<le> py_int g"
  by (blast intro: py_int_nonneg dest: match_label_digits)

lemma py_int_saved: "re_search match_saved l = Some g \<Longrightarrow> 0 \<le> py_int g"
  by (blast intro: py_int_nonneg dest: match_saved_digits)

lemma py_int_ratio:
  "re_search match_ratio l = Some (g1, g2) \<Longrightarrow> 0 \<le> py_int g1 \<and> 0 \<le> py_int g2"
  by (blast intro: py_int_nonneg dest: match_ratio_digits)

lemma progress_block_ok: "counters_ok s \<Longrightarrow> counters_ok (progress_block l s)"
  by (simp add: counters_ok_def block_defs py_int_ratio split: option.splits sum.splits)

lemma saved_block_ok: "counters_ok s \<Longrightarrow> counters_ok (saved_block l s)"
  by (simp add: counters_ok_def block_defs py_int_saved split: option.splits)

lemma comments_block_ok: "counters_ok s \<Longrightarrow> counters_ok (comments_block l s)"
  by (simp add: counters_ok_def block_defs py_int_label split: option.splits)

lemma fetching_block_ok: "counters_ok s \<Longrightarrow> counters_ok (fetching_block l s)"
  by (simp add: counters_ok_def block_defs)

lemma images_block_ok: "counters_ok s \<Longrightarrow> counters_ok (images_block l s)"
  by (simp add: counters_ok_def block_defs py_int_label split: option.splits)

lemma videos_block_ok: "counters_ok s \<Longrightarrow> counters_ok (videos_block l s)"
  by (simp add: counters_ok_def block_defs py_int_label split: option.splits)

lemma found_block_ok: "counters_ok s \<Longrightarrow> counters_ok (found_block l s)"
  by (simp add: counters_ok_def block_defs split: option.splits)

lemma patterns_ok: "counters_ok s \<Longrightarrow> counters_ok (patterns l s)"
  by (simp add: patterns_def progress_block_ok saved_block_ok comments_block_ok
      fetching_block_ok images_block_ok videos_block_ok found_block_ok)

lemma emit_ok: "counters_ok s \<Longrightarrow> nonneg_call c \<Longrightarrow> counters_ok (emit c s)"
  by (simp add: counters_ok_def emit_def)

lemma status_update_ok: "counters_ok s \<Longrightarrow> status_update t s = Inr s' \<Longrightarrow> counters_ok s'"
  by (auto simp: status_update_def split: if_splits sum.splits intro: emit_ok)

lemma loop_body_ok: "counters_ok s \<Longrightarrow> counters_ok (snd (loop_body t raw s))"
proof -
  let ?s2 = "patterns (decode raw) (s\<lparr>output_lines := output_lines s @ [decode raw]\<rparr>)"
  assume "counters_ok s"
  then have "counters_ok (s\<lparr>output_lines := output_lines s @ [decode raw]\<rparr>)"
    by (simp add: counters_ok_def)
  then have p: "counters_ok ?s2" by (rule patterns_ok)
  show ?thesis
  proof (cases "status_update t ?s2")
    case (Inl err)
    with p show ?thesis by (simp add: loop_body_def Let_def)
  next
    case (Inr s3)
    with p have "counters_ok s3" by (blast intro: status_update_ok)
    then have "counters_ok (emit (OutputCode (concat (last_n 15 (output_lines s3)))) s3)"
      by (rule emit_ok) simp
    with Inr show ?thesis by (simp add: loop_body_def Let_def)
  qed
qed

lemma pump_ok: "counters_ok s \<Longrightarrow> counters_ok (snd (pump clk raws s))"
proof (induction raws arbitrary: s)
  case Nil
  then show ?case by simp
next
  case (Cons r raws)
  from loop_body_ok [OF Cons.prems, of "clk (length (output_lines s))" r] Cons.IH
  show ?case
    by (cases "loop_body (clk (length (output_lines s))) r s") (auto split: option.splits)
qed

lemma run_ok: "counters_ok (run w)"
proof -
  have i: "counters_ok initial" by (simp add: counters_ok_def initial_def)
  have a: "\<And>t rc s. counters_ok s \<Longrightarrow> counters_ok (after_loop t rc s)"
    by (simp add: after_loop_def counters_ok_def emit_def Let_def)
  have x: "\<And>e s. counters_ok s \<Longrightarrow> counters_ok (on_exception e s)"
    by (simp add: on_exception_def counters_ok_def emit_def)
  show ?thesis
  proof (cases "spawn w")
    case None
    with i x show ?thesis by (simp add: run_def)
  next
    case (Some c)
    obtain raws stop where r: "iter_readline (ending c) (chunks c) = (raws, stop)"
      by (cases "iter_readline (ending c) (chunks c)")
    obtain e s where p: "pump (clock w) raws initial = (e, s)"
      by (cases "pump (clock w) raws initial")
    from pump_ok [OF i, of "clock w" raws] p have "counters_ok s" by simp
    with Some r p a x show ?thesis
      by (simp add: run_def split: option.splits)
  qed
qed

text \<open>
  C9. The four counters start at 0 and are never negative: after any number of lines, whatever
  they were, each counter is at least 0; so it is at the end of every run, however the run
  ended, and so is every number that was shown in a metric widget on the way. (A payload
  matched by \<^verbatim>\<open>\d+\<close> is a decimal numeral, so its value is not negative; a counter is
  assigned such a value or has one added.)
\<close>

theorem counters_never_negative:
  "0 \<le> posts_count (run w) \<and> 0 \<le> comments_count (run w) \<and> 0 \<le> images_count (run w)
   \<and> 0 \<le> videos_count (run w) \<and> list_all nonneg_call (ui (run w))
   \<and> 0 \<le> posts_count (snd (pump clk raws initial))
   \<and> 0 \<le> comments_count (snd (pump clk raws initial))
   \<and> 0 \<le> images_count (snd (pump clk raws initial))
   \<and> 0 \<le> videos_count (snd (pump clk raws initial))"
proof -
  have "counters_ok initial" by (simp add: counters_ok_def initial_def)
  then have "counters_ok (snd (pump clk raws initial))" by (rule pump_ok)
  with run_ok [of w] show ?thesis by (simp add: counters_ok_def)
qed

theorem counters_never_negative_witness:
  "0 \<le> posts_count (run stream_failure) \<and> 0 \<le> comments_count (run stream_failure)
   \<and> 0 \<le> images_count (run stream_failure) \<and> 0 \<le> videos_count (run stream_failure)
   \<and> list_all nonneg_call (ui (run stream_failure))
   \<and> 0 \<le> posts_count (snd (pump (\<lambda>k. 1) [''Saved 12 new posts\<newline>'', ''Comments: 4\<newline>''] initial))"
  using counters_never_negative [of stream_failure "\<lambda>k. 1"
      "[''Saved 12 new posts\<newline>'', ''Comments: 4\<newline>'']"]
  by blast

subsection \<open>What the loop shows\<close>

lemma emit_snapshot:
  "list_all is_snapshot (ui s) \<Longrightarrow> is_snapshot c \<Longrightarrow> list_all is_snapshot (ui (emit c s))"
  by (simp add: emit_def)

lemma block_snapshots:
  assumes "list_all is_snapshot (ui s)"
  shows "list_all is_snapshot (ui (progress_block l s))"
    and "list_all is_snapshot (ui (saved_block l s))"
    and "list_all is_snapshot (ui (comments_block l s))"
    and "list_all is_snapshot (ui (fetching_block l s))"
    and "list_all is_snapshot (ui (images_block l s))"
    and "list_all is_snapshot (ui (videos_block l s))"
    and "list_all is_snapshot (ui (found_block l s))"
  using assms by (simp_all add: block_defs split: option.splits sum.splits)

lemma patterns_snapshots:
  "list_all is_snapshot (ui s) \<Longrightarrow> list_all is_snapshot (ui (patterns l s))"
  by (simp add: patterns_def block_snapshots)

lemma status_update_snapshots:
  "list_all is_snapshot (ui s) \<Longrightarrow> status_update t s = Inr s' \<Longrightarrow> list_all is_snapshot (ui s')"
  by (auto simp: status_update_def emit_def split: if_splits sum.splits)

lemma loop_body_snapshots:
  "list_all is_snapshot (ui s) \<Longrightarrow> list_all is_snapshot (ui (snd (loop_body t raw s)))"
proof -
  let ?s2 = "patterns (decode raw) (s\<lparr>output_lines := output_lines s @ [decode raw]\<rparr>)"
  assume "list_all is_snapshot (ui s)"
  then have p: "list_all is_snapshot (ui ?s2)" by (simp add: patterns_snapshots)
  show ?thesis
  proof (cases "status_update t ?s2")
    case (Inl err)
    with p show ?thesis by (simp add: loop_body_def Let_def)
  next
    case (Inr s3)
    with p have "list_all is_snapshot (ui s3)" by (blast intro: status_update_snapshots)
    with Inr show ?thesis by (simp add: loop_body_def Let_def emit_def)
  qed
qed

lemma pump_snapshots:
  "list_all is_snapshot (ui s) \<Longrightarrow> list_all is_snapshot (ui (snd (pump clk raws s)))"
proof (induction raws arbitrary: s)
  case Nil
  then show ?case by simp
next
  case (Cons r raws)
  from loop_body_snapshots [OF Cons.prems, of "clk (length (output_lines s))" r] Cons.IH
  show ?case
    by (cases "loop_body (clk (length (output_lines s))) r s") (auto split: option.splits)
qed

lemma output_container_last: "output_container (calls @ [OutputCode text]) = text"
  by (simp add: output_container_def)

lemma output_container_other:
  "\<not> is_snapshot c \<Longrightarrow> output_container (calls @ [c]) = output_container calls"
  by (cases c) (simp_all add: output_container_def)

lemma loop_body_container:
  "loop_body t raw s = (None, s') \<Longrightarrow>
   output_container (ui s') = concat (last_n 15 (output_lines s'))"
  by (auto simp: loop_body_def Let_def emit_def output_container_last split: sum.splits)

lemma pump_container:
  "pump clk raws s = (None, s') \<Longrightarrow>
   output_container (ui s) = concat (last_n 15 (output_lines s)) \<Longrightarrow>
   output_container (ui s') = concat (last_n 15 (output_lines s'))"
proof (induction raws arbitrary: s)
  case Nil
  then show ?case by simp
next
  case (Cons r raws)
  obtain e s1 where l: "loop_body (clk (length (output_lines s))) r s = (e, s1)"
    by (cases "loop_body (clk (length (output_lines s))) r s")
  with Cons.prems(1) have e: "e = None" by (cases e) simp_all
  from l e have "output_container (ui s1) = concat (last_n 15 (output_lines s1))"
    by (simp add: loop_body_container)
  moreover from l e Cons.prems(1) have "pump clk raws s1 = (None, s')" by simp
  ultimately show ?case by (rule Cons.IH [rotated])
qed

lemma pump_lines:
  "pump clk raws s = (None, s') \<Longrightarrow> output_lines s' = output_lines s @ map decode raws"
  using pump_output_lines [of clk raws s] by simp

lemma run_spawned:
  "spawn w = Some c \<Longrightarrow>
   run w =
     (case pump (clock w) (fst (iter_readline (ending c) (chunks c))) initial of
        (Some err, s) \<Rightarrow> on_exception err s
      | (None, s) \<Rightarrow>
          (case iteration_end (ending c) of
             Some err \<Rightarrow> on_exception err s
           | None \<Rightarrow> after_loop (clock w (length (output_lines s))) (returncode c) s))"
  by (simp add: run_def iter_readline_stream_lines)

subsection \<open>One outcome, and nothing after it\<close>

lemma snapshot_not_outcome: "is_snapshot c \<Longrightarrow> \<not> is_outcome c"
  by (cases c) simp_all

lemma outcome_at_end:
  assumes "list_all is_snapshot pre"
    and "post = [StError err, StTraceback] \<or> post = [ProgressBar 1, StatusSuccess t, Balloons]
         \<or> post = [ProgressBar 1, StatusError rc, StCode text]"
  shows "length (filter is_outcome (pre @ post)) = 1
         \<and> filter is_snapshot (dropWhile (\<lambda>c. \<not> is_outcome c) (pre @ post)) = []"
proof -
  from assms(1) have n: "\<And>x. x \<in> set pre \<Longrightarrow> \<not> is_outcome x"
    by (auto simp: list_all_iff dest: snapshot_not_outcome)
  then have f: "filter is_outcome pre = []" by (simp add: filter_empty_conv)
  from n have d: "dropWhile (\<lambda>c. \<not> is_outcome c) (pre @ post) = dropWhile (\<lambda>c. \<not> is_outcome c) post"
    by (simp add: dropWhile_append2)
  from assms(2) f d show ?thesis by auto
qed

lemma run_calls:
  "\<exists>pre post err t rc text. ui (run w) = pre @ post \<and> list_all is_snapshot pre
     \<and> (post = [StError err, StTraceback] \<or> post = [ProgressBar 1, StatusSuccess t, Balloons]
         \<or> post = [ProgressBar 1, StatusError rc, StCode text])"
proof (cases "spawn w")
  case None
  then have "ui (run w) = [] @ [StError SpawnError, StTraceback]"
    by (simp add: run_def on_exception_def emit_def initial_def)
  moreover have "list_all is_snapshot []" by simp
  ultimately show ?thesis by blast
next
  case (Some c)
  obtain e s where p: "pump (clock w) (fst (iter_readline (ending c) (chunks c))) initial = (e, s)"
    by (cases "pump (clock w) (fst (iter_readline (ending c) (chunks c))) initial")
  have "list_all is_snapshot (ui initial)" by (simp add: initial_def)
  from pump_snapshots [OF this, of "clock w" "fst (iter_readline (ending c) (chunks c))"] p
  have s: "list_all is_snapshot (ui s)" by simp
  show ?thesis
  proof (cases e)
    case (Some err)
    with \<open>spawn w = Some c\<close> p have "ui (run w) = ui s @ [StError err, StTraceback]"
      by (simp add: run_spawned on_exception_def emit_def)
    with s show ?thesis by blast
  next
    case None
    show ?thesis
    proof (cases "ending c")
      case IoFailure
      with None \<open>spawn w = Some c\<close> p have "ui (run w) = ui s @ [StError StreamError, StTraceback]"
        by (simp add: run_spawned on_exception_def emit_def iteration_end_def)
      with s show ?thesis by blast
    next
      case Eof
      show ?thesis
      proof (cases "returncode c = 0")
        case True
        with Eof None \<open>spawn w = Some c\<close> p
        have "ui (run w) = ui s @ [ProgressBar 1, StatusSuccess (clock w (length (output_lines s))), Balloons]"
          by (simp add: run_spawned after_loop_def emit_def iteration_end_def)
        with s show ?thesis by blast
      next
        case False
        with Eof None \<open>spawn w = Some c\<close> p
        have "ui (run w) = ui s @ [ProgressBar 1, StatusError (returncode c),
            StCode (concat (last_n 30 (output_lines s)))]"
          by (simp add: run_spawned after_loop_def emit_def iteration_end_def)
        with s show ?thesis by blast
      qed
    qed
  qed
qed

text \<open>
  C5. Every run announces its outcome exactly once: the log of a run holds exactly one
  outcome call (success, failure with the exit code, or the error of the exception handler),
  and from that call on there is no snapshot call: no metric, progress, running-status or
  output call follows the outcome.
\<close>

theorem one_outcome_nothing_after:
  "length (filter is_outcome (ui (run w))) = 1
   \<and> filter is_snapshot (dropWhile (\<lambda>c. \<not> is_outcome c) (ui (run w))) = []"
proof -
  from run_calls [of w] obtain pre post err t rc shown where
    "ui (run w) = pre @ post" "list_all is_snapshot pre"
    "post = [StError err, StTraceback] \<or> post = [ProgressBar 1, StatusSuccess t, Balloons]
       \<or> post = [ProgressBar 1, StatusError rc, StCode shown]"
    by blast
  with outcome_at_end [of pre post err t rc shown] show ?thesis by simp
qed

theorem one_outcome_nothing_after_witness:
  "filter is_outcome (ui (run scenario_a)) = [StatusSuccess 3]
   \<and> dropWhile (\<lambda>c. \<not> is_outcome c) (ui (run scenario_a)) = [StatusSuccess 3, Balloons]"
proof -
  have u: "ui (run scenario_a)
      = [ProgressBar (1 / 20), PostsMetric (OfTotal 5 100), StatusInfoRunning 1 5,
         OutputCode ''Progress: 5/100 posts\<newline>'',
         ProgressBar (1 / 10), PostsMetric (OfTotal 10 100), StatusInfoRunning 2 5,
         OutputCode ''Progress: 5/100 posts\<newline>Progress: 10/100 posts\<newline>'',
         ProgressBar 1, StatusSuccess 3, Balloons]"
    by code_simp
  from one_outcome_nothing_after [of scenario_a] show ?thesis unfolding u by simp
qed

subsection \<open>The end of the run\<close>

lemma pump_quiet:
  "\<forall>r \<in> set raws. \<not> contains ''Progress:'' (decode r) \<and> \<not> contains ''Saved'' (decode r) \<Longrightarrow>
   \<bar>posts_count s\<bar> < float_limit \<Longrightarrow>
   fst (pump clk raws s) = None \<and> posts_count (snd (pump clk raws s)) = posts_count s"
proof (induction raws arbitrary: s)
  case Nil
  show ?case by simp
next
  case (Cons r raws)
  obtain e s1 where l: "loop_body (clk (length (output_lines s))) r s = (e, s1)"
    by (cases "loop_body (clk (length (output_lines s))) r s")
  from Cons.prems(1) have p: "posts_count (patterns (decode r) s) = posts_count s"
    by (simp add: patterns_posts)
  with loop_body_normal [of "clk (length (output_lines s))" r s] l Cons.prems(2)
  have e: "e = None" by simp
  from loop_body_fields(1) [OF l] p have p1: "posts_count s1 = posts_count s" by simp
  with Cons.IH [of s1] Cons.prems l e show ?case by simp
qed

lemma float_limit_pos: "0 < float_limit"
  by (simp add: float_limit_def)

lemma scenario_d_decode: "map decode scenario_d_lines = scenario_d_lines"
  by (simp add: scenario_d_lines_def)

lemma scenario_d_read: "fst (iter_readline Eof scenario_d_lines) = scenario_d_lines"
  by (simp add: iter_readline_stream_lines stream_lines_def scenario_d_lines_def newline_def)

lemma scenario_d_quiet: "\<forall>r \<in> set scenario_d_lines. \<not> contains ''Progress:'' (decode r) \<and> \<not> contains ''Saved'' (decode r)"
  by (simp add: scenario_d_lines_def)

text \<open>
  C3. When the loop has reached the end of the stream, the exit code decides. With exit code
  0 the run announces success, and the output widget shows the last 15 decoded lines (all of
  them when there were fewer); with any other exit code it announces the failure with that
  code and shows the last 30 lines, in the order of their arrival. For the two progress lines
  with exit code 0 that is \<^verbatim>\<open>posts_count = 10\<close>, success and both lines shown; for forty
  lines without any pattern and exit code 2 it is failure with code 2 and lines 11 to 40.
\<close>

theorem exit_code_outcome:
  assumes "spawn w = Some c" and "ending c = Eof"
    and "raw_lines = fst (iter_readline Eof (chunks c))"
    and "pump (clock w) raw_lines initial = (None, s)"
  shows "output_lines (run w) = map decode raw_lines
     \<and> posts_count (run w) = posts_count s
     \<and> list_all is_snapshot (ui s)
     \<and> (returncode c = 0 \<longrightarrow>
          ui (run w) = ui s @ [ProgressBar 1, StatusSuccess (clock w (length raw_lines)), Balloons]
          \<and> output_container (ui (run w)) = concat (last_n 15 (map decode raw_lines)))
     \<and> (returncode c \<noteq> 0 \<longrightarrow>
          ui (run w) = ui s @ [ProgressBar 1, StatusError (returncode c),
                                StCode (concat (last_n 30 (map decode raw_lines)))])"
proof -
  from assms(4) have l: "output_lines s = map decode raw_lines"
    by (simp add: pump_lines initial_def)
  have "output_container (ui initial) = concat (last_n 15 (output_lines initial))"
    by (simp add: initial_def output_container_def last_n_def)
  with assms(4) have oc: "output_container (ui s) = concat (last_n 15 (output_lines s))"
    by (rule pump_container)
  have "list_all is_snapshot (ui initial)" by (simp add: initial_def)
  from pump_snapshots [OF this, of "clock w" raw_lines] assms(4)
  have sn: "list_all is_snapshot (ui s)" by simp
  from assms have r: "run w = after_loop (clock w (length (output_lines s))) (returncode c) s"
    by (simp add: run_spawned iteration_end_def)
  have oc': "output_container (ui s @ [ProgressBar 1, StatusSuccess (clock w (length raw_lines)), Balloons])
      = output_container (ui s)"
    by (simp add: output_container_def)
  from r l oc sn oc' show ?thesis
    by (simp add: after_loop_def emit_def Let_def)
qed

theorem exit_code_outcome_witness:
  "posts_count (run scenario_a) = 10
   \<and> ui (run scenario_a)
       = ui (snd (pump (clock scenario_a)
                   [''Progress: 5/100 posts\<newline>'', ''Progress: 10/100 posts\<newline>''] initial))
         @ [ProgressBar 1, StatusSuccess 3, Balloons]
   \<and> output_container (ui (run scenario_a))
       = concat [''Progress: 5/100 posts\<newline>'', ''Progress: 10/100 posts\<newline>'']
   \<and> length scenario_d_lines = 40
   \<and> ui (run scenario_d)
       = ui (snd (pump (clock scenario_d) scenario_d_lines initial))
         @ [ProgressBar 1, StatusError 2, StCode (concat (drop 10 scenario_d_lines))]"
proof -
  define ca where "ca = \<lparr>chunks = [''Progress: 5/100 posts\<newline>'', ''Progress: 10/100 posts\<newline>''],
               ending = Eof, returncode = 0\<rparr>"
  define ra :: "byte list list"
    where "ra = [''Progress: 5/100 posts\<newline>'', ''Progress: 10/100 posts\<newline>'']"
  define sa where "sa = snd (pump (clock scenario_a) ra initial)"
  define cd where "cd = \<lparr>chunks = scenario_d_lines, ending = Eof, returncode = 2\<rparr>"
  define sd where "sd = snd (pump (clock scenario_d) scenario_d_lines initial)"
  have a1: "spawn scenario_a = Some ca" by (simp add: scenario_a_def ca_def)
  have a2: "ending ca = Eof" and a0: "returncode ca = 0" by (simp_all add: ca_def)
  have a3: "ra = fst (iter_readline Eof (chunks ca))"
    by (simp add: ca_def ra_def iter_readline_stream_lines stream_lines_def newline_def)
  have "fst (pump (clock scenario_a) ra initial) = None" unfolding ra_def by code_simp
  then have a4: "pump (clock scenario_a) ra initial = (None, sa)"
    unfolding sa_def by (metis prod.collapse)
  have a5: "posts_count sa = 10" unfolding sa_def ra_def by code_simp
  have a6: "map decode ra = ra" by (simp add: ra_def)
  have a7: "clock scenario_a (length ra) = 3" by (simp add: scenario_a_def ra_def)
  have a8: "last_n 15 ra = ra" by (simp add: last_n_def ra_def)
  have d1: "spawn scenario_d = Some cd" by (simp add: scenario_d_def cd_def)
  have d2: "ending cd = Eof" and d0: "returncode cd = 2" by (simp_all add: cd_def)
  have d3: "scenario_d_lines = fst (iter_readline Eof (chunks cd))"
    by (simp add: cd_def scenario_d_read)
  have "\<bar>posts_count initial\<bar> < float_limit" by (simp add: initial_def float_limit_pos)
  with pump_quiet [OF scenario_d_quiet] have "fst (pump (clock scenario_d) scenario_d_lines initial) = None"
    by blast
  then have d4: "pump (clock scenario_d) scenario_d_lines initial = (None, sd)"
    unfolding sd_def by (metis prod.collapse)
  have d5: "length scenario_d_lines = 40" by (simp add: scenario_d_lines_def)
  then have d6: "last_n 30 scenario_d_lines = drop 10 scenario_d_lines" by (simp add: last_n_def)
  note X = exit_code_outcome [OF a1 a2 a3 a4]
  from X a5 have A1: "posts_count (run scenario_a) = 10" by simp
  from X a0 have "ui (run scenario_a)
      = ui sa @ [ProgressBar 1, StatusSuccess (clock scenario_a (length ra)), Balloons]"
    by blast
  with a7 have A2: "ui (run scenario_a) = ui sa @ [ProgressBar 1, StatusSuccess 3, Balloons]"
    by simp
  from X a0 have "output_container (ui (run scenario_a)) = concat (last_n 15 (map decode ra))"
    by blast
  with a6 a8 have A3: "output_container (ui (run scenario_a)) = concat ra" by simp
  note Y = exit_code_outcome [OF d1 d2 d3 d4]
  from Y d0 have "ui (run scenario_d)
      = ui sd @ [ProgressBar 1, StatusError (returncode cd),
                 StCode (concat (last_n 30 (map decode scenario_d_lines)))]"
    by simp
  with d0 d6 scenario_d_decode have D: "ui (run scenario_d)
      = ui sd @ [ProgressBar 1, StatusError 2, StCode (concat (drop 10 scenario_d_lines))]"
    by simp
  from A1 A2 A3 D d5 show ?thesis unfolding sa_def sd_def ra_def by blast
qed

subsection \<open>Runs that end in the exception handler\<close>

text \<open>
  C8. When the child cannot be started, \<^verbatim>\<open>Popen\<close> raises: the run shows the error and the
  traceback at once, no line has been read and the output widget is empty. When reading the
  stream fails, the loop ends there: the run shows the error and the traceback, and the
  output widget keeps what the loop had put there, the last lines (up to 15) that had been
  read completely before the failure.
\<close>

theorem failure_outcomes:
  "(spawn w = None \<longrightarrow>
      ui (run w) = [StError SpawnError, StTraceback]
      \<and> output_lines (run w) = [] \<and> output_container (ui (run w)) = [])
   \<and> (spawn w = Some c \<and> ending c = IoFailure
       \<and> raw_lines = fst (iter_readline IoFailure (chunks c))
       \<and> pump (clock w) raw_lines initial = (None, s) \<longrightarrow>
      snd (iter_readline IoFailure (chunks c)) = Some StreamError
      \<and> ui (run w) = ui s @ [StError StreamError, StTraceback]
      \<and> list_all is_snapshot (ui s)
      \<and> output_lines (run w) = map decode raw_lines
      \<and> output_container (ui (run w)) = concat (last_n 15 (map decode raw_lines)))"
proof -
  have spawn_fails: "ui (run w) = [StError SpawnError, StTraceback]
      \<and> output_lines (run w) = [] \<and> output_container (ui (run w)) = []"
    if "spawn w = None"
    using that by (simp add: run_def on_exception_def emit_def initial_def output_container_def)
  have stream_fails: "snd (iter_readline IoFailure (chunks c)) = Some StreamError
      \<and> ui (run w) = ui s @ [StError StreamError, StTraceback]
      \<and> list_all is_snapshot (ui s)
      \<and> output_lines (run w) = map decode raw_lines
      \<and> output_container (ui (run w)) = concat (last_n 15 (map decode raw_lines))"
    if a: "spawn w = Some c" "ending c = IoFailure"
      "raw_lines = fst (iter_readline IoFailure (chunks c))"
      "pump (clock w) raw_lines initial = (None, s)"
  proof -
    from a(4) have l: "output_lines s = map decode raw_lines"
      by (simp add: pump_lines initial_def)
    have "output_container (ui initial) = concat (last_n 15 (output_lines initial))"
      by (simp add: initial_def output_container_def last_n_def)
    with a(4) have oc: "output_container (ui s) = concat (last_n 15 (output_lines s))"
      by (rule pump_container)
    have "list_all is_snapshot (ui initial)" by (simp add: initial_def)
    from pump_snapshots [OF this, of "clock w" raw_lines] a(4)
    have sn: "list_all is_snapshot (ui s)" by simp
    from a have r: "run w = on_exception StreamError s"
      by (simp add: run_spawned iteration_end_def)
    have oc': "output_container (ui s @ [StError StreamError, StTraceback]) = output_container (ui s)"
      by (simp add: output_container_def)
    have e: "snd (iter_readline IoFailure (chunks c)) = Some StreamError"
      by (simp add: iter_readline_stream_lines iteration_end_def)
    from r l oc sn oc' e show ?thesis by (simp add: on_exception_def emit_def)
  qed
  from spawn_fails stream_fails show ?thesis by blast
qed

theorem failure_outcomes_witness:
  "ui (run spawn_failure) = [StError SpawnError, StTraceback]
   \<and> output_container (ui (run spawn_failure)) = []
   \<and> ui (run stream_failure)
       = ui (snd (pump (clock stream_failure) [''Saved 3 new posts\<newline>'', ''Images: 2\<newline>''] initial))
         @ [StError StreamError, StTraceback]
   \<and> output_lines (run stream_failure) = [''Saved 3 new posts\<newline>'', ''Images: 2\<newline>'']
   \<and> output_container (ui (run stream_failure)) = ''Saved 3 new posts\<newline>Images: 2\<newline>''"
proof -
  define c where "c = \<lparr>chunks = [''Saved 3 new posts\<newline>Imag'', ''es: 2\<newline>Found 7 po''],
                     ending = IoFailure, returncode = 1\<rparr>"
  define rl :: "byte list list" where "rl = [''Saved 3 new posts\<newline>'', ''Images: 2\<newline>'']"
  define s where "s = snd (pump (clock stream_failure) rl initial)"
  have 0: "spawn spawn_failure = None" by (simp add: spawn_failure_def)
  have 1: "spawn stream_failure = Some c" by (simp add: stream_failure_def c_def)
  have 2: "ending c = IoFailure" by (simp add: c_def)
  have 3: "rl = fst (iter_readline IoFailure (chunks c))"
    by (simp add: c_def rl_def iter_readline_stream_lines stream_lines_def newline_def)
  have "fst (pump (clock stream_failure) rl initial) = None" unfolding rl_def by code_simp
  then have 4: "pump (clock stream_failure) rl initial = (None, s)"
    unfolding s_def by (metis prod.collapse)
  have 5: "map decode rl = rl" by (simp add: rl_def)
  have 6: "concat (last_n 15 rl) = ''Saved 3 new posts\<newline>Images: 2\<newline>''"
    by (simp add: rl_def last_n_def)
  from failure_outcomes [of spawn_failure c rl s] 0
  have A: "ui (run spawn_failure) = [StError SpawnError, StTraceback]
      \<and> output_container (ui (run spawn_failure)) = []" by blast
  from failure_outcomes [of stream_failure c rl s] 1 2 3 4
  have B: "ui (run stream_failure) = ui s @ [StError StreamError, StTraceback]"
    and C: "output_lines (run stream_failure) = map decode rl"
    and D: "output_container (ui (run stream_failure)) = concat (last_n 15 (map decode rl))"
    by blast+
  from C 5 have C': "output_lines (run stream_failure) = rl" by simp
  from D 5 6 have D': "output_container (ui (run stream_failure)) = ''Saved 3 new posts\<newline>Images: 2\<newline>''"
    by simp
  from A B C' D' show ?thesis unfolding s_def rl_def by blast
qed

subsection \<open>Triggers without a payload\<close>

lemma loop_body_error:
  "fst (loop_body t raw s) = None \<or> fst (loop_body t raw s) = Some OverflowError"
  by (auto simp: loop_body_def Let_def status_update_def int_to_float_def split: sum.splits if_splits)

text \<open>
  C6 (as amended). A pattern whose trigger substring is in the line but whose regular
  expression finds no payload does nothing: its block leaves the state as it is, counters and
  widgets, and raises nothing. The other patterns of the line are applied as usual. So a line
  in which no pattern finds a payload, and which does not contain
  \<^verbatim>\<open>Fetching comments for:\<close>, changes no counter (\<^verbatim>\<open>Comments: notanumber\<close> leaves
  \<^verbatim>\<open>comments_count\<close> at 0), and its iteration ends normally whenever \<^verbatim>\<open>posts_count\<close> is
  within the range of a \<^verbatim>\<open>float\<close>.
\<close>

theorem failed_payload_ignored:
  "(re_search match_ratio line = None \<longrightarrow> progress_block line s = s)
   \<and> (re_search match_saved line = None \<longrightarrow> saved_block line s = s)
   \<and> (re_search (match_label ''Comments:'') line = None \<longrightarrow> comments_block line s = s)
   \<and> (re_search (match_label ''Images:'') line = None \<longrightarrow> images_block line s = s)
   \<and> (re_search (match_label ''Videos:'') line = None \<longrightarrow> videos_block line s = s)
   \<and> (re_search match_found line = None \<longrightarrow> found_block line s = s)
   \<and> (re_search match_ratio line = None \<and> re_search match_saved line = None
       \<and> re_search (match_label ''Comments:'') line = None
       \<and> re_search (match_label ''Images:'') line = None
       \<and> re_search (match_label ''Videos:'') line = None
       \<and> re_search match_found line = None
       \<and> \<not> contains ''Fetching comments for:'' line \<longrightarrow>
         patterns line s = s
         \<and> (line = decode raw \<and> \<bar>posts_count s\<bar> < float_limit \<longrightarrow>
              fst (loop_body t raw s) = None
              \<and> posts_count (snd (loop_body t raw s)) = posts_count s
              \<and> comments_count (snd (loop_body t raw s)) = comments_count s
              \<and> images_count (snd (loop_body t raw s)) = images_count s
              \<and> videos_count (snd (loop_body t raw s)) = videos_count s))"
proof -
  have b: "re_search match_ratio line = None \<Longrightarrow> progress_block line s = s"
    "re_search match_saved line = None \<Longrightarrow> saved_block line s = s"
    "re_search (match_label ''Comments:'') line = None \<Longrightarrow> comments_block line s = s"
    "re_search (match_label ''Images:'') line = None \<Longrightarrow> images_block line s = s"
    "re_search (match_label ''Videos:'') line = None \<Longrightarrow> videos_block line s = s"
    "re_search match_found line = None \<Longrightarrow> found_block line s = s"
    by (simp_all add: block_defs)
  have p: "patterns line s = s"
    if "re_search match_ratio line = None" "re_search match_saved line = None"
      "re_search (match_label ''Comments:'') line = None"
      "re_search (match_label ''Images:'') line = None"
      "re_search (match_label ''Videos:'') line = None"
      "re_search match_found line = None"
      "\<not> contains ''Fetching comments for:'' line"
    using that by (simp add: patterns_def block_defs)
  have l: "fst (loop_body t raw s) = None
        \<and> posts_count (snd (loop_body t raw s)) = posts_count s
        \<and> comments_count (snd (loop_body t raw s)) = comments_count s
        \<and> images_count (snd (loop_body t raw s)) = images_count s
        \<and> videos_count (snd (loop_body t raw s)) = videos_count s"
    if "patterns line s = s" "line = decode raw" "\<bar>posts_count s\<bar> < float_limit"
  proof -
    from that have "fst (loop_body t raw s) = None" by (simp add: loop_body_normal)
    moreover obtain e s' where "loop_body t raw s = (e, s')" by (cases "loop_body t raw s")
    ultimately show ?thesis using loop_body_fields [of t raw s e s'] that by simp
  qed
  from b p l show ?thesis by blast
qed

theorem failed_payload_ignored_witness:
  "contains ''Comments:'' ''Comments: notanumber\<newline>''
   \<and> re_search (match_label ''Comments:'') ''Comments: notanumber\<newline>'' = None
   \<and> patterns ''Comments: notanumber\<newline>'' initial = initial
   \<and> comments_count (patterns ''Comments: notanumber\<newline>'' initial) = 0
   \<and> fst (loop_body 1 ''Comments: notanumber\<newline>'' initial) = None
   \<and> comments_count (snd (loop_body 1 ''Comments: notanumber\<newline>'' initial)) = 0"
proof -
  define line where "line = ''Comments: notanumber\<newline>''"
  have h: "re_search match_ratio line = None" "re_search match_saved line = None"
    "re_search (match_label ''Comments:'') line = None"
    "re_search (match_label ''Images:'') line = None"
    "re_search (match_label ''Videos:'') line = None"
    "re_search match_found line = None"
    "\<not> contains ''Fetching comments for:'' line"
    by (simp_all add: line_def eval_text)
  have c: "contains ''Comments:'' line" by (simp add: line_def)
  have d: "line = decode line" by (simp add: line_def)
  have f: "\<bar>posts_count initial\<bar> < float_limit" by (simp add: initial_def float_limit_pos)
  have z: "comments_count initial = 0" by (simp add: initial_def)
  from failed_payload_ignored [of line initial line 1] h d f
  have "patterns line initial = initial \<and> fst (loop_body 1 line initial) = None
      \<and> comments_count (snd (loop_body 1 line initial)) = comments_count initial"
    by blast
  with c h(3) z show ?thesis unfolding line_def by simp
qed

text \<open>
  C6 as stated lets such a line change no counter at all. In
  \<^verbatim>\<open>Comments: notanumber Images: 3\<close> the trigger \<^verbatim>\<open>Comments:\<close> has no payload, and the line
  sets \<^verbatim>\<open>images_count\<close> to 3.
\<close>

theorem unparsed_line_changes_counter_counterexample:
  "contains ''Comments:'' ''Comments: notanumber Images: 3\<newline>''
   \<and> re_search (match_label ''Comments:'') ''Comments: notanumber Images: 3\<newline>'' = None
   \<and> images_count initial = 0
   \<and> images_count (patterns ''Comments: notanumber Images: 3\<newline>'' initial) = 3"
  by (simp add: patterns_images initial_def eval_text)

subsection \<open>A total of zero\<close>

text \<open>
  The handler of the first block. On a \<^verbatim>\<open>Progress:\<close> line whose pair has the total 0, the
  body of the first \<^verbatim>\<open>try\<close> assigns the parsed count to \<^verbatim>\<open>posts_count\<close> and then raises
  \<^verbatim>\<open>ZeroDivisionError\<close> in the ratio; \<^verbatim>\<open>except: pass\<close> drops it. The block ends with the new
  \<^verbatim>\<open>posts_count\<close> and without a call on the progress bar or the posts metric, the other six
  blocks run on the same line, and no \<^verbatim>\<open>ZeroDivisionError\<close> leaves the iteration: it ends
  normally whenever the resulting \<^verbatim>\<open>posts_count\<close> is within the range of a \<^verbatim>\<open>float\<close>, and
  the loop goes on with the next line.
\<close>

lemma zero_total_caught:
  assumes "contains ''Progress:'' line" and "re_search match_ratio line = Some (g1, g2)"
    and "py_int g2 = 0" and "line = decode raw"
  shows "progress_try line s = (Some ZeroDivisionError, s\<lparr>posts_count := py_int g1\<rparr>)
     \<and> progress_block line s = s\<lparr>posts_count := py_int g1\<rparr>
     \<and> ui (progress_block line s) = ui s
     \<and> patterns line s
         = found_block line (videos_block line (images_block line (fetching_block line
             (comments_block line (saved_block line (s\<lparr>posts_count := py_int g1\<rparr>))))))
     \<and> fst (loop_body t raw s) \<noteq> Some ZeroDivisionError
     \<and> (\<bar>posts_count (patterns line s)\<bar> < float_limit \<longrightarrow>
          fst (loop_body (clk (length (output_lines s))) raw s) = None
          \<and> pump clk (raw # rest) s
              = pump clk rest (snd (loop_body (clk (length (output_lines s))) raw s)))"
proof -
  from assms(2) have sl: "contains ''/'' line" by (rule re_search_ratio_contains)
  from assms(2,3) have t: "progress_try line s = (Some ZeroDivisionError, s\<lparr>posts_count := py_int g1\<rparr>)"
    by (simp add: progress_try_def int_truediv_def)
  with assms(1) sl have b: "progress_block line s = s\<lparr>posts_count := py_int g1\<rparr>"
    by (simp add: progress_block_def except_pass_def)
  then have p: "patterns line s
         = found_block line (videos_block line (images_block line (fetching_block line
             (comments_block line (saved_block line (s\<lparr>posts_count := py_int g1\<rparr>))))))"
    by (simp add: patterns_def)
  from loop_body_error [of t raw s] have z: "fst (loop_body t raw s) \<noteq> Some ZeroDivisionError"
    by auto
  have n: "fst (loop_body (clk (length (output_lines s))) raw s) = None
      \<and> pump clk (raw # rest) s
          = pump clk rest (snd (loop_body (clk (length (output_lines s))) raw s))"
    if "\<bar>posts_count (patterns line s)\<bar> < float_limit"
  proof -
    from that assms(4) have "fst (loop_body (clk (length (output_lines s))) raw s) = None"
      by (simp add: loop_body_normal)
    then show ?thesis
      by (cases "loop_body (clk (length (output_lines s))) raw s") simp
  qed
  from t b p z n show ?thesis by simp
qed

lemma zero_total_caught_example:
  "contains ''Progress:'' ''Progress: 5/0\<newline>''
   \<and> re_search match_ratio ''Progress: 5/0\<newline>'' = Some (''5'', ''0'')
   \<and> progress_try ''Progress: 5/0\<newline>'' initial = (Some ZeroDivisionError, initial\<lparr>posts_count := 5\<rparr>)
   \<and> progress_block ''Progress: 5/0\<newline>'' initial = initial\<lparr>posts_count := 5\<rparr>
   \<and> fst (loop_body 1 ''Progress: 5/0\<newline>'' initial) = None
   \<and> pump (\<lambda>k. 1) [''Progress: 5/0\<newline>'', ''Images: 2\<newline>''] initial
       = pump (\<lambda>k. 1) [''Images: 2\<newline>''] (snd (loop_body 1 ''Progress: 5/0\<newline>'' initial))"
proof -
  define line where "line = ''Progress: 5/0\<newline>''"
  have 1: "contains ''Progress:'' line" by (simp add: line_def)
  have 2: "re_search match_ratio line = Some (''5'', ''0'')" by (simp add: line_def eval_text)
  have 3: "py_int ''0'' = 0" and 5: "py_int ''5'' = 5" by (simp_all add: py_int_def digit_value_def)
  have 4: "line = decode line" by (simp add: line_def)
  have 6: "\<bar>posts_count (patterns line initial)\<bar> < float_limit"
    using 1 2 5 by (simp add: patterns_posts line_def float_limit_def)
  have 7: "length (output_lines initial) = 0" by (simp add: initial_def)
  from zero_total_caught [OF 1 2 3 4, of initial 1 "\<lambda>k. 1" "[''Images: 2\<newline>'']"] 5 6 7 1 2
  show ?thesis unfolding line_def by simp
qed

lemma huge_decode: "decode huge_progress_line = huge_progress_line"
  by code_simp

lemma huge_match:
  "re_search match_ratio huge_progress_line = Some (CHR ''2'' # replicate 308 CHR ''0'', ''0'')"
  by code_simp

lemma huge_value: "py_int (CHR ''2'' # replicate 308 CHR ''0'') = 2 * 10 ^ 308"
  by code_simp

lemma huge_triggers:
  "contains ''Progress:'' huge_progress_line"
  "\<not> contains ''Saved'' huge_progress_line"
  "\<not> contains ''Comments:'' huge_progress_line"
  "\<not> contains ''Fetching comments for:'' huge_progress_line"
  "\<not> contains ''Images:'' huge_progress_line"
  "\<not> contains ''Videos:'' huge_progress_line"
  "\<not> contains ''Found'' huge_progress_line"
  by code_simp+


lemma huge_read:
  "iter_readline Eof [huge_progress_line, ''Images: 2\<newline>'']
     = ([huge_progress_line, ''Images: 2\<newline>''], None)"
proof -
  have "concat [huge_progress_line, ''Images: 2\<newline>'']
      = concat (map (\<lambda>l. l @ [newline]) [''Progress: 2'' @ replicate 308 CHR ''0'' @ ''/0'', ''Images: 2''])"
    by (simp add: huge_progress_line_def newline_def)
  moreover have "\<forall>l \<in> set [''Progress: 2'' @ replicate 308 CHR ''0'' @ ''/0'', ''Images: 2'']. newline \<notin> set l"
    by (simp add: newline_def)
  ultimately have "stream_lines Eof (concat [huge_progress_line, ''Images: 2\<newline>''])
      = map (\<lambda>l. l @ [newline]) [''Progress: 2'' @ replicate 308 CHR ''0'' @ ''/0'', ''Images: 2'']"
    by (simp only: stream_lines_terminated)
  then show ?thesis
    by (simp add: iter_readline_stream_lines iteration_end_def huge_progress_line_def newline_def)
qed

lemma huge_patterns:
  "patterns huge_progress_line s = s\<lparr>posts_count := 2 * 10 ^ 308\<rparr>"
proof -
  have sl: "contains ''/'' huge_progress_line"
    using huge_match by (rule re_search_ratio_contains)
  have z: "py_int ''0'' = 0" by (simp add: py_int_def digit_value_def)
  have "progress_block huge_progress_line s = s\<lparr>posts_count := 2 * 10 ^ 308\<rparr>"
    using huge_triggers(1) sl huge_match huge_value z
    by (simp add: progress_block_def progress_try_def except_pass_def int_truediv_def)
  with huge_triggers show ?thesis
    by (simp add: patterns_def saved_block_def comments_block_def fetching_block_def
        images_block_def videos_block_def found_block_def)
qed

lemma huge_loop_body:
  "0 < t \<Longrightarrow>
   loop_body t huge_progress_line s
     = (Some OverflowError, s\<lparr>output_lines := output_lines s @ [huge_progress_line],
                               posts_count := 2 * 10 ^ 308\<rparr>)"
  by (simp add: loop_body_def huge_decode huge_patterns status_update_def int_to_float_def
      float_limit_def)

text \<open>
  C10. Supervision can fail on a \<^verbatim>\<open>Progress:\<close> line whose pair has the total 0. On the line
  with the count 2 and 308 zeros, the division by zero is caught as for any such line and
  \<^verbatim>\<open>posts_count\<close> holds the count; but the count is beyond the range of a \<^verbatim>\<open>float\<close>, the rate
  computation of line 471 raises \<^verbatim>\<open>OverflowError\<close> outside every \<^verbatim>\<open>try\<close> of the loop, and the
  run ends in the exception handler: the next line is not read and the exit code is not
  looked at.
\<close>

theorem zero_total_overflow:
  "contains ''Progress:'' (decode huge_progress_line)
   \<and> re_search match_ratio (decode huge_progress_line)
       = Some (CHR ''2'' # replicate 308 CHR ''0'', ''0'')
   \<and> py_int ''0'' = 0
   \<and> progress_try (decode huge_progress_line) initial
       = (Some ZeroDivisionError, initial\<lparr>posts_count := 2 * 10 ^ 308\<rparr>)
   \<and> fst (loop_body 1 huge_progress_line initial) = Some OverflowError
   \<and> ui (run huge_progress) = [StError OverflowError, StTraceback]
   \<and> output_lines (run huge_progress) = [huge_progress_line]
   \<and> images_count (run huge_progress) = 0"
proof -
  have z: "py_int ''0'' = 0" by (simp add: py_int_def digit_value_def)
  have t: "progress_try huge_progress_line initial
      = (Some ZeroDivisionError, initial\<lparr>posts_count := 2 * 10 ^ 308\<rparr>)"
    using huge_match huge_value z by (simp add: progress_try_def int_truediv_def)
  have r: "run huge_progress
      = on_exception OverflowError
          (initial\<lparr>output_lines := output_lines initial @ [huge_progress_line],
                    posts_count := 2 * 10 ^ 308\<rparr>)"
    by (simp add: run_def huge_progress_def huge_read huge_loop_body initial_def)
  from r have u: "ui (run huge_progress) = [StError OverflowError, StTraceback]"
    and l: "output_lines (run huge_progress) = [huge_progress_line]"
    and i: "images_count (run huge_progress) = 0"
    by (simp_all add: on_exception_def emit_def initial_def)
  from huge_triggers(1) huge_match z t u l i show ?thesis
    by (simp add: huge_decode huge_loop_body)
qed

end
